theory Spec2Isabelle
  imports Main
begin

unbundle bit_operations_syntax

section \<open>Python values used by \<^verbatim>\<open>kitty/key_encoding.py\<close>\<close>

text \<open>
  A Python \<^verbatim>\<open>str\<close> is a sequence of Unicode code points, so it is modelled as the list of
  its code points; \<open>S\<close> turns an ASCII literal into such a list. Python integers are
  unbounded and are modelled by \<^typ>\<open>int\<close> (the interpreter's configurable limit on the
  number of digits \<^verbatim>\<open>int()\<close> accepts is not modelled). Every exception the module can
  raise is a value of \<open>error\<close>, and a computation that may raise returns \<open>error + 'a\<close>.

  Single characters appear as their code points: 27 is ESC, 43 the plus sign, 45 the minus
  sign, 58 the colon, 59 the semicolon, 91 the opening bracket and 95 the underscore.
\<close>

type_synonym pystr = "nat list"

definition S :: "string \<Rightarrow> pystr" where
  "S cs = map of_char cs"

datatype error = ValueError | OverflowError | KeyError | IndexError | TypeError

definition bindE :: "error + 'a \<Rightarrow> ('a \<Rightarrow> error + 'b) \<Rightarrow> error + 'b" where
  "bindE m f = (case m of Inl e \<Rightarrow> Inl e | Inr x \<Rightarrow> f x)"

text \<open>A comprehension over a sequence: the elements are computed left to right and the
  first exception ends it.\<close>

fun mapE :: "('a \<Rightarrow> error + 'b) \<Rightarrow> 'a list \<Rightarrow> error + 'b list" where
  "mapE f [] = Inr []"
| "mapE f (x # xs) = bindE (f x) (\<lambda>y. bindE (mapE f xs) (\<lambda>ys. Inr (y # ys)))"

subsection \<open>\<^verbatim>\<open>chr\<close>, \<^verbatim>\<open>ord\<close>, \<^verbatim>\<open>str\<close>\<close>

text \<open>\<^verbatim>\<open>chr(n)\<close> raises ValueError outside \<^verbatim>\<open>range(0x110000)\<close>, and OverflowError
  when \<open>n\<close> does not fit a C int.\<close>

definition py_chr :: "int \<Rightarrow> error + pystr" where
  "py_chr n =
     (if n < - 2147483648 \<or> 2147483647 < n then Inl OverflowError
      else if n < 0 \<or> 1114112 \<le> n then Inl ValueError
      else Inr [nat n])"

text \<open>\<^verbatim>\<open>ord(s)\<close> raises TypeError unless \<open>s\<close> has exactly one character.\<close>

definition py_ord :: "pystr \<Rightarrow> error + int" where
  "py_ord s = (case s of [c] \<Rightarrow> Inr (int c) | _ \<Rightarrow> Inl TypeError)"

fun digits :: "nat \<Rightarrow> pystr" where
  "digits n = (if n < 10 then [48 + n] else digits (n div 10) @ [48 + n mod 10])"

declare digits.simps [simp del]

text \<open>\<^verbatim>\<open>str(i)\<close>, also what \<^verbatim>\<open>f'{i}'\<close> formats: decimal, with a minus sign.\<close>

definition py_str :: "int \<Rightarrow> pystr" where
  "py_str i = (if i < 0 then 45 # digits (nat (- i)) else digits (nat i))"

subsection \<open>\<^verbatim>\<open>int\<close> of a string\<close>

text \<open>
  \<^verbatim>\<open>int(s)\<close> in base 10: white space around the number is skipped, one sign is allowed,
  then come decimal digits, with single underscores allowed between digits. Besides the
  ASCII digits and blanks, every Unicode decimal digit and the Unicode white space beyond
  ASCII are accepted. \<open>nd_zeros\<close> lists the digit zero of every run of ten decimal digits
  (Unicode 14).
\<close>

definition nd_zeros :: "nat list" where
  "nd_zeros =
    [48, 1632, 1776, 1984, 2406, 2534, 2662, 2790, 2918, 3046, 3174, 3302, 3430, 3558,
     3664, 3792, 3872, 4160, 4240, 6112, 6160, 6470, 6608, 6784, 6800, 6992, 7088, 7232,
     7248, 42528, 43216, 43264, 43472, 43504, 43600, 44016, 65296, 66720, 68912, 69734,
     69872, 69942, 70096, 70384, 70736, 70864, 71248, 71360, 71472, 71904, 72016, 72784,
     73040, 73120, 92768, 92864, 93008, 120782, 120792, 120802, 120812, 120822, 123200,
     123632, 125264, 130032]"

definition digit_value :: "nat \<Rightarrow> nat option" where
  "digit_value c = map_option (\<lambda>z. c - z) (find (\<lambda>z. z \<le> c \<and> c < z + 10) nd_zeros)"

definition int_space :: "nat \<Rightarrow> bool" where
  "int_space c \<longleftrightarrow>
     c \<in> set [9, 10, 11, 12, 13, 32, 133, 160, 5760, 8192, 8193, 8194, 8195, 8196, 8197,
               8198, 8199, 8200, 8201, 8202, 8232, 8233, 8239, 8287, 12288]"

text \<open>The digit values of a string of the shape digit (\<^verbatim>\<open>_\<close>? digit)*.\<close>

fun digit_seq :: "pystr \<Rightarrow> nat list option" where
  "digit_seq [] = None"
| "digit_seq [c] = map_option (\<lambda>d. [d]) (digit_value c)"
| "digit_seq (c # c' # cs) =
     (case digit_value c of
        None \<Rightarrow> None
      | Some d \<Rightarrow>
          map_option ((#) d) (if c' = 95 then digit_seq cs else digit_seq (c' # cs)))"

definition strip_space :: "pystr \<Rightarrow> pystr" where
  "strip_space s = rev (dropWhile int_space (rev (dropWhile int_space s)))"

definition py_int :: "pystr \<Rightarrow> error + int" where
  "py_int s =
     (let t = strip_space s;
          neg = (t \<noteq> [] \<and> hd t = 45);
          u = (if t \<noteq> [] \<and> (hd t = 45 \<or> hd t = 43) then tl t else t)
      in case digit_seq u of
           None \<Rightarrow> Inl ValueError
         | Some ds \<Rightarrow>
             (let v = int (foldl (\<lambda>a d. 10 * a + d) 0 ds) in Inr (if neg then - v else v)))"

subsection \<open>\<^verbatim>\<open>split\<close>, \<^verbatim>\<open>join\<close>, \<^verbatim>\<open>in\<close>, \<^verbatim>\<open>endswith\<close>, \<^verbatim>\<open>upper\<close>\<close>

text \<open>\<^verbatim>\<open>s.split(sep)\<close> for a separator of one character: always at least one part.\<close>

fun split_str :: "nat \<Rightarrow> pystr \<Rightarrow> pystr list" where
  "split_str sep [] = [[]]"
| "split_str sep (c # cs) =
     (if c = sep then [] # split_str sep cs
      else (case split_str sep cs of [] \<Rightarrow> [[c]] | p # ps \<Rightarrow> (c # p) # ps))"

fun join_str :: "pystr \<Rightarrow> pystr list \<Rightarrow> pystr" where
  "join_str sep [] = []"
| "join_str sep [x] = x"
| "join_str sep (x # y # ys) = x @ sep @ join_str sep (y # ys)"

text \<open>\<^verbatim>\<open>x in s\<close> on strings is the substring test: the empty string is in every string.\<close>

fun py_in :: "pystr \<Rightarrow> pystr \<Rightarrow> bool" where
  "py_in x [] \<longleftrightarrow> x = []"
| "py_in x (c # cs) \<longleftrightarrow> take (length x) (c # cs) = x \<or> py_in x cs"

definition endswith :: "pystr \<Rightarrow> pystr \<Rightarrow> bool" where
  "endswith s x \<longleftrightarrow> length x \<le> length s \<and> drop (length s - length x) s = x"

text \<open>
  \<^verbatim>\<open>s.upper()\<close> maps every character through the full upper-case mapping of the Unicode
  database. On ASCII that changes the letters a to z only; beyond ASCII the mapping (one
  code point to one or more) is a parameter \<open>uc\<close>.
\<close>

definition py_upper :: "(nat \<Rightarrow> pystr) \<Rightarrow> pystr \<Rightarrow> pystr" where
  "py_upper uc s =
     concat (map (\<lambda>c. if c < 128 then [if 97 \<le> c \<and> c \<le> 122 then c - 32 else c] else uc c) s)"

section \<open>The number and name tables\<close>

text \<open>A dict literal is kept as its list of items; \<open>map_of\<close> is the lookup.\<close>

definition functional_key_number_to_name_map :: "(int \<times> pystr) list" where
  "functional_key_number_to_name_map =
  [(57344, S ''ESCAPE''), (57345, S ''ENTER''), (57346, S ''TAB''),
   (57347, S ''BACKSPACE''), (57348, S ''INSERT''), (57349, S ''DELETE''),
   (57350, S ''LEFT''), (57351, S ''RIGHT''), (57352, S ''UP''),
   (57353, S ''DOWN''), (57354, S ''PAGE_UP''), (57355, S ''PAGE_DOWN''),
   (57356, S ''HOME''), (57357, S ''END''), (57358, S ''CAPS_LOCK''),
   (57359, S ''SCROLL_LOCK''), (57360, S ''NUM_LOCK''), (57361, S ''PRINT_SCREEN''),
   (57362, S ''PAUSE''), (57363, S ''MENU''), (57364, S ''F1''),
   (57365, S ''F2''), (57366, S ''F3''), (57367, S ''F4''),
   (57368, S ''F5''), (57369, S ''F6''), (57370, S ''F7''),
   (57371, S ''F8''), (57372, S ''F9''), (57373, S ''F10''),
   (57374, S ''F11''), (57375, S ''F12''), (57376, S ''F13''),
   (57377, S ''F14''), (57378, S ''F15''), (57379, S ''F16''),
   (57380, S ''F17''), (57381, S ''F18''), (57382, S ''F19''),
   (57383, S ''F20''), (57384, S ''F21''), (57385, S ''F22''),
   (57386, S ''F23''), (57387, S ''F24''), (57388, S ''F25''),
   (57389, S ''F26''), (57390, S ''F27''), (57391, S ''F28''),
   (57392, S ''F29''), (57393, S ''F30''), (57394, S ''F31''),
   (57395, S ''F32''), (57396, S ''F33''), (57397, S ''F34''),
   (57398, S ''F35''), (57399, S ''KP_0''), (57400, S ''KP_1''),
   (57401, S ''KP_2''), (57402, S ''KP_3''), (57403, S ''KP_4''),
   (57404, S ''KP_5''), (57405, S ''KP_6''), (57406, S ''KP_7''),
   (57407, S ''KP_8''), (57408, S ''KP_9''), (57409, S ''KP_DECIMAL''),
   (57410, S ''KP_DIVIDE''), (57411, S ''KP_MULTIPLY''), (57412, S ''KP_SUBTRACT''),
   (57413, S ''KP_ADD''), (57414, S ''KP_ENTER''), (57415, S ''KP_EQUAL''),
   (57416, S ''KP_SEPARATOR''), (57417, S ''KP_LEFT''), (57418, S ''KP_RIGHT''),
   (57419, S ''KP_UP''), (57420, S ''KP_DOWN''), (57421, S ''KP_PAGE_UP''),
   (57422, S ''KP_PAGE_DOWN''), (57423, S ''KP_HOME''), (57424, S ''KP_END''),
   (57425, S ''KP_INSERT''), (57426, S ''KP_DELETE''), (57427, S ''MEDIA_PLAY''),
   (57428, S ''MEDIA_PAUSE''), (57429, S ''MEDIA_PLAY_PAUSE''), (57430, S ''MEDIA_REVERSE''),
   (57431, S ''MEDIA_STOP''), (57432, S ''MEDIA_FAST_FORWARD''), (57433, S ''MEDIA_REWIND''),
   (57434, S ''MEDIA_TRACK_NEXT''), (57435, S ''MEDIA_TRACK_PREVIOUS''), (57436, S ''MEDIA_RECORD''),
   (57437, S ''LOWER_VOLUME''), (57438, S ''RAISE_VOLUME''), (57439, S ''MUTE_VOLUME''),
   (57440, S ''LEFT_SHIFT''), (57441, S ''LEFT_CONTROL''), (57442, S ''LEFT_ALT''),
   (57443, S ''LEFT_SUPER''), (57444, S ''LEFT_HYPER''), (57445, S ''RIGHT_SHIFT''),
   (57446, S ''RIGHT_CONTROL''), (57447, S ''RIGHT_ALT''), (57448, S ''RIGHT_SUPER''),
   (57449, S ''RIGHT_HYPER''), (57450, S ''ISO_LEVEL3_SHIFT''), (57451, S ''ISO_LEVEL5_SHIFT'')]"

definition csi_number_to_functional_number_map :: "(int \<times> int) list" where
  "csi_number_to_functional_number_map =
  [(2, 57348), (3, 57349), (5, 57354), (6, 57355), (7, 57356), (8, 57357),
   (9, 57346), (11, 57364), (12, 57365), (13, 57345), (14, 57367), (15, 57368),
   (17, 57369), (18, 57370), (19, 57371), (20, 57372), (21, 57373), (23, 57374),
   (24, 57375), (27, 57344), (127, 57347)]"

definition letter_trailer_to_csi_number_map :: "(pystr \<times> int) list" where
  "letter_trailer_to_csi_number_map =
  [(S ''A'', 57352), (S ''B'', 57353), (S ''C'', 57351), (S ''D'', 57350), (S ''F'', 8),
   (S ''H'', 7), (S ''P'', 11), (S ''Q'', 12), (S ''R'', 13), (S ''S'', 14)]"

definition tilde_trailers :: "int list" where
  "tilde_trailers =
  [57348, 57349, 57354, 57355, 57368, 57369, 57370, 57371, 57372, 57373, 57374, 57375]"

text \<open>The inverse dicts \<^verbatim>\<open>{v: k for k, v in d.items()}\<close>: were a value to occur twice,
  the later item would win, hence the \<open>rev\<close>.\<close>

definition invert :: "('a \<times> 'b) list \<Rightarrow> ('b \<times> 'a) list" where
  "invert d = rev (map (\<lambda>(k, v). (v, k)) d)"

definition get_name_to_functional_number_map :: "(pystr \<times> int) list" where
  "get_name_to_functional_number_map = invert functional_key_number_to_name_map"

definition get_functional_to_csi_number_map :: "(int \<times> int) list" where
  "get_functional_to_csi_number_map = invert csi_number_to_functional_number_map"

definition get_csi_number_to_letter_trailer_map :: "(int \<times> pystr) list" where
  "get_csi_number_to_letter_trailer_map = invert letter_trailer_to_csi_number_map"

text \<open>\<^verbatim>\<open>d.get(k, default)\<close>\<close>

definition dict_get :: "('a \<times> 'b) list \<Rightarrow> 'a \<Rightarrow> 'b \<Rightarrow> 'b" where
  "dict_get d k dflt = (case map_of d k of None \<Rightarrow> dflt | Some v \<Rightarrow> v)"

section \<open>Key events\<close>

datatype EventType = PRESS | REPEAT | RELEASE

text \<open>The values of the \<^verbatim>\<open>IntEnum\<close>.\<close>

fun event_value :: "EventType \<Rightarrow> int" where
  "event_value PRESS = 1"
| "event_value REPEAT = 2"
| "event_value RELEASE = 4"

record KeyEvent =
  type :: EventType
  mods :: int
  key :: pystr
  text_of :: pystr
  shifted_key :: pystr
  alternate_key :: pystr
  shift :: bool
  alt :: bool
  ctrl :: bool
  super :: bool

text \<open>\<^verbatim>\<open>KeyEvent(...)\<close> with the defaults of the class for the fields not given.\<close>

definition KeyEvent0 :: KeyEvent where
  "KeyEvent0 = \<lparr>type = PRESS, mods = 0, key = [], text_of = [], shifted_key = [],
     alternate_key = [], shift = False, alt = False, ctrl = False, super = False\<rparr>"

definition SHIFT :: int where "SHIFT = 1"
definition ALT :: int where "ALT = 2"
definition CTRL :: int where "CTRL = 4"
definition SUPER :: int where "SUPER = 8"

section \<open>The decoder\<close>

text \<open>\<^verbatim>\<open>tuple(int(y) if y else missing for y in x.split(':'))\<close>\<close>

definition get_sub_sections :: "pystr \<Rightarrow> int \<Rightarrow> error + int list" where
  "get_sub_sections x missing =
     mapE (\<lambda>y. if y \<noteq> [] then py_int y else Inr missing) (split_str 58 x)"

text \<open>The local function \<^verbatim>\<open>key_name\<close> of the decoder; it reads \<^verbatim>\<open>csi_type\<close>.\<close>

definition key_name :: "pystr \<Rightarrow> int \<Rightarrow> error + pystr" where
  "key_name csi_type num =
     (if num = 0 then Inr []
      else if num \<noteq> 13 then
        (let num' = dict_get csi_number_to_functional_number_map num num
         in case map_of functional_key_number_to_name_map num' of
              Some ans \<Rightarrow> Inr ans
            | None \<Rightarrow> py_chr num')
      else Inr (if csi_type = S ''u'' then S ''ENTER'' else S ''F3''))"

text \<open>The key number the decoder resolves: the first integer of the first section, unless
  the trailer is found in \<^verbatim>\<open>'ABCDHFPQRS'\<close>; then the subscript of the letter table decides,
  and raises KeyError when the trailer is not one of its keys.\<close>

definition effective_keynum :: "pystr \<Rightarrow> int list \<Rightarrow> error + int" where
  "effective_keynum csi_type first_section =
     (if py_in csi_type (S ''ABCDHFPQRS'') then
        (case map_of letter_trailer_to_csi_number_map csi_type of
           None \<Rightarrow> Inl KeyError
         | Some n \<Rightarrow> Inr n)
      else Inr (first_section ! 0))"

definition action_type :: "int \<Rightarrow> error + EventType" where
  "action_type action =
     (case map_of [(1, PRESS), (2, REPEAT), (3, RELEASE)] action of
        None \<Rightarrow> Inl KeyError
      | Some t \<Rightarrow> Inr t)"

text \<open>
  The body of the decoder, in the order in which Python evaluates it. \<^verbatim>\<open>split\<close> returns at
  least one part and \<^verbatim>\<open>get_sub_sections\<close> at least one integer (lemmas
  \<open>split_str_nonempty\<close> and \<open>get_sub_sections_nonempty\<close> below), so \<^verbatim>\<open>parts[0]\<close> and
  \<^verbatim>\<open>first_section[0]\<close> are always there; the other subscripts are guarded in the source.
\<close>

definition decode_key_event :: "pystr \<Rightarrow> pystr \<Rightarrow> error + KeyEvent" where
  "decode_key_event csi csi_type =
     (let parts = split_str 59 csi in
      bindE (get_sub_sections (parts ! 0) 0) (\<lambda>first_section.
      bindE (if length parts > 1 then get_sub_sections (parts ! 1) 1 else Inr []) (\<lambda>second_section.
      bindE (if length parts > 2 then get_sub_sections (parts ! 2) 0 else Inr []) (\<lambda>third_section.
      let mods' = (if second_section \<noteq> [] then second_section ! 0 - 1 else 0);
          action = (if length second_section > 1 then second_section ! 1 else 1)
      in
      bindE (effective_keynum csi_type first_section) (\<lambda>keynum.
      bindE (key_name csi_type keynum) (\<lambda>k.
      bindE (key_name csi_type (if length first_section > 1 then first_section ! 1 else 0)) (\<lambda>sk.
      bindE (key_name csi_type (if length first_section > 2 then first_section ! 2 else 0)) (\<lambda>ak.
      bindE (action_type action) (\<lambda>ty.
      bindE (mapE py_chr third_section) (\<lambda>chars.
      Inr \<lparr>type = ty, mods = mods', key = k, text_of = concat chars, shifted_key = sk,
           alternate_key = ak, shift = (mods' AND SHIFT \<noteq> 0), alt = (mods' AND ALT \<noteq> 0),
           ctrl = (mods' AND CTRL \<noteq> 0), super = (mods' AND SUPER \<noteq> 0)\<rparr>))))))))))"

section \<open>The encoder\<close>

definition csi_number_for_name :: "pystr \<Rightarrow> error + int" where
  "csi_number_for_name kn =
     (if kn = [] then Inr 0
      else case map_of get_name_to_functional_number_map kn of
             None \<Rightarrow> py_ord kn
           | Some fn \<Rightarrow> Inr (dict_get get_functional_to_csi_number_map fn fn))"

definition encode_key_event :: "KeyEvent \<Rightarrow> error + pystr" where
  "encode_key_event key_event =
     bindE (csi_number_for_name (key key_event)) (\<lambda>key0.
     bindE (csi_number_for_name (shifted_key key_event)) (\<lambda>shifted_key'.
     bindE (csi_number_for_name (alternate_key key_event)) (\<lambda>alternate_key'.
     let lt = get_csi_number_to_letter_trailer_map;
         trailer = (if key key_event = S ''ENTER'' then S ''u'' else dict_get lt key0 (S ''u''));
         key' = (if trailer \<noteq> S ''u'' then 1 else key0);
         mods' = mods key_event;
         text' = text_of key_event;
         ans = [27, 91];
         ans = (if key' \<noteq> 1 \<or> mods' \<noteq> 0 \<or> shifted_key' \<noteq> 0 \<or> alternate_key' \<noteq> 0 \<or> text' \<noteq> []
                then ans @ py_str key' else ans);
         ans = (if shifted_key' \<noteq> 0 \<or> alternate_key' \<noteq> 0 then
                  (let ans = ans @ S '':'' @ (if shifted_key' \<noteq> 0 then py_str shifted_key' else [])
                   in if alternate_key' \<noteq> 0 then ans @ S '':'' @ py_str alternate_key' else ans)
                else ans);
         action = (if type key_event = REPEAT then 2
                   else if type key_event = RELEASE then 3 else (1::int));
         ans = (if mods' \<noteq> 0 \<or> action > 1 \<or> text' \<noteq> [] then
                  (let m = (0::int);
                       m = (if shift key_event then m OR 1 else m);
                       m = (if alt key_event then m OR 2 else m);
                       m = (if ctrl key_event then m OR 4 else m);
                       m = (if super key_event then m OR 8 else m)
                   in if action > 1 \<or> m \<noteq> 0 then
                        (let ans = ans @ S '';'' @ py_str (m + 1)
                         in if action > 1 then ans @ S '':'' @ py_str action else ans)
                      else if text' \<noteq> [] then ans @ S '';'' else ans)
                else ans);
         ans = (if text' \<noteq> [] then
                  ans @ S '';'' @ join_str (S '':'') (map (\<lambda>c. py_str (int c)) text')
                else ans);
         trailer = (case map_of get_name_to_functional_number_map (key key_event) of
                      None \<Rightarrow> trailer
                    | Some fn \<Rightarrow> if fn \<in> set tilde_trailers then S ''~'' else trailer)
     in Inr (ans @ trailer))))"

section \<open>Shortcut specifications\<close>

text \<open>\<^verbatim>\<open>ParsedShortcut\<close> is the named tuple \<^verbatim>\<open>(mods, key_name)\<close> of \<^verbatim>\<open>kitty.types\<close>.\<close>

record ParsedShortcut =
  parsed_mods :: int
  parsed_key_name :: pystr

definition config_mod_map :: "(pystr \<times> int) list" where
  "config_mod_map =
  [(S ''SHIFT'', SHIFT), (S ''ALT'', ALT), (S ''OPTION'', ALT), ([8997], ALT),
   ([8984], SUPER), (S ''CMD'', SUPER), (S ''SUPER'', SUPER), (S ''CTRL'', CTRL),
   (S ''CONTROL'', CTRL)]"

text \<open>
  What the module takes from outside: the two alias dicts of \<^verbatim>\<open>kitty.key_names\<close>, of
  which only \<^verbatim>\<open>get\<close> is used, and the upper-case mapping of the code points beyond ASCII.
\<close>

record externals =
  functional_key_name_aliases :: "pystr \<rightharpoonup> pystr"
  character_key_name_aliases :: "pystr \<rightharpoonup> pystr"
  unicode_upper :: "nat \<Rightarrow> pystr"

text \<open>The \<^verbatim>\<open>lru_cache\<close> around \<^verbatim>\<open>parse_shortcut\<close> does not change what it returns.
  \<^verbatim>\<open>parts[-1]\<close> is always there, \<^verbatim>\<open>split\<close> returning at least one part.\<close>

text \<open>The first lines of \<^verbatim>\<open>parse_shortcut\<close>: a final \<^verbatim>\<open>+\<close> becomes \<^verbatim>\<open>plus\<close>, then the
  string is split at \<^verbatim>\<open>+\<close>.\<close>

definition shortcut_parts :: "pystr \<Rightarrow> pystr list" where
  "shortcut_parts spec =
     (let spec = (if endswith spec (S ''+'') then butlast spec @ S ''plus'' else spec)
      in split_str 43 spec)"

definition parse_shortcut :: "externals \<Rightarrow> pystr \<Rightarrow> ParsedShortcut" where
  "parse_shortcut X spec =
     (let upper = py_upper (unicode_upper X);
          parts = shortcut_parts spec;
          key_name = last parts;
          key_name = (case functional_key_name_aliases X (upper key_name) of
                        None \<Rightarrow> key_name | Some a \<Rightarrow> a);
          is_functional_key = (map_of get_name_to_functional_number_map (upper key_name) \<noteq> None);
          key_name = (if is_functional_key then upper key_name
                      else case character_key_name_aliases X (upper key_name) of
                             None \<Rightarrow> key_name | Some a \<Rightarrow> a);
          mod_val = (if length parts > 1 then
                       foldl (\<lambda>mod_val x. mod_val OR x) 0
                         (map (\<lambda>x. dict_get config_mod_map (upper x) (push_bit 8 SUPER))
                            (butlast parts))
                     else 0)
      in \<lparr>parsed_mods = mod_val, parsed_key_name = key_name\<rparr>)"

text \<open>The argument \<^verbatim>\<open>spec\<close> of \<^verbatim>\<open>matches\<close> is a string or a parsed shortcut.\<close>

datatype shortcut_spec = Str pystr | Parsed ParsedShortcut

definition default_types :: int where
  "default_types = event_value PRESS OR event_value REPEAT"

definition matches :: "externals \<Rightarrow> KeyEvent \<Rightarrow> shortcut_spec \<Rightarrow> int \<Rightarrow> bool" where
  "matches X self spec types =
     (if event_value (type self) AND types = 0 then False
      else
        let is_shifted = (shifted_key self \<noteq> [] \<and> shift self);
            q = (if is_shifted then mods self AND NOT SHIFT else mods self);
            kq = (if is_shifted then shifted_key self else key self);
            spec' = (case spec of Str s \<Rightarrow> parse_shortcut X s | Parsed p \<Rightarrow> p)
        in if q \<noteq> parsed_mods spec' then False else kq = parsed_key_name spec')"

section \<open>The window system's key events\<close>

text \<open>
  \<^verbatim>\<open>WindowSystemKeyEvent\<close> and the \<^verbatim>\<open>GLFW_\<close> constants belong to the extension module
  \<^verbatim>\<open>fast_data_types\<close>: the constants are parameters, and the event is the record of the
  keyword arguments it is built from.
\<close>

record glfw_defines =
  GLFW_PRESS :: int
  GLFW_REPEAT :: int
  GLFW_RELEASE :: int
  GLFW_MOD_SHIFT :: int
  GLFW_MOD_ALT :: int
  GLFW_MOD_CONTROL :: int
  GLFW_MOD_SUPER :: int

record WindowSystemKeyEvent =
  ws_key :: int
  ws_shifted_key :: int
  ws_alternate_key :: int
  ws_mods :: int
  ws_action :: int
  ws_text :: pystr

text \<open>\<^verbatim>\<open>(fnm.get(key) or ord(key)) if key else 0\<close>\<close>

definition as_num :: "pystr \<Rightarrow> error + int" where
  "as_num k =
     (if k \<noteq> [] then
        (case map_of get_name_to_functional_number_map k of
           None \<Rightarrow> py_ord k
         | Some n \<Rightarrow> if n \<noteq> 0 then Inr n else py_ord k)
      else Inr 0)"

definition as_window_system_event :: "glfw_defines \<Rightarrow> KeyEvent \<Rightarrow> error + WindowSystemKeyEvent" where
  "as_window_system_event D self =
     (let action = (if type self = REPEAT then GLFW_REPEAT D
                    else if type self = RELEASE then GLFW_RELEASE D else GLFW_PRESS D);
          m = (0::int);
          m = (if mods self \<noteq> 0 \<and> shift self then m OR GLFW_MOD_SHIFT D else m);
          m = (if mods self \<noteq> 0 \<and> alt self then m OR GLFW_MOD_ALT D else m);
          m = (if mods self \<noteq> 0 \<and> ctrl self then m OR GLFW_MOD_CONTROL D else m);
          m = (if mods self \<noteq> 0 \<and> super self then m OR GLFW_MOD_SUPER D else m)
      in
      bindE (as_num (key self)) (\<lambda>k.
      bindE (as_num (shifted_key self)) (\<lambda>sk.
      bindE (as_num (alternate_key self)) (\<lambda>ak.
      Inr \<lparr>ws_key = k, ws_shifted_key = sk, ws_alternate_key = ak, ws_mods = m,
           ws_action = action, ws_text = text_of self\<rparr>))))"

text \<open>
  \<^verbatim>\<open>text[2:-1]\<close> never raises; \<^verbatim>\<open>text[-1]\<close> raises IndexError on the empty string, and
  stands before the \<^verbatim>\<open>try\<close>. Inside the \<^verbatim>\<open>try\<close>, every exception of the decoder becomes
  \<^verbatim>\<open>None\<close>; the conversion of the decoded event stands after it.
\<close>

definition decode_key_event_as_window_system_key ::
  "glfw_defines \<Rightarrow> pystr \<Rightarrow> error + WindowSystemKeyEvent option" where
  "decode_key_event_as_window_system_key D text =
     (let csi = drop 2 (butlast text) in
      if text = [] then Inl IndexError
      else
        let trailer = [last text] in
        case decode_key_event csi trailer of
          Inl e \<Rightarrow> Inr None
        | Inr k \<Rightarrow> bindE (as_window_system_event D k) (\<lambda>w. Inr (Some w)))"

section \<open>Fixtures\<close>

text \<open>An environment with empty alias dicts, in which upper-casing leaves the code points
  beyond ASCII alone; and sample values for the \<^verbatim>\<open>GLFW_\<close> constants.\<close>

definition no_aliases :: externals where
  "no_aliases = \<lparr>functional_key_name_aliases = Map.empty,
     character_key_name_aliases = Map.empty, unicode_upper = (\<lambda>c. [c])\<rparr>"

definition glfw :: glfw_defines where
  "glfw = \<lparr>GLFW_PRESS = 1, GLFW_REPEAT = 2, GLFW_RELEASE = 0, GLFW_MOD_SHIFT = 1,
     GLFW_MOD_ALT = 2, GLFW_MOD_CONTROL = 4, GLFW_MOD_SUPER = 8\<rparr>"

text \<open>The key names of the data model: empty, one character, or a functional name.\<close>

definition is_key_name :: "pystr \<Rightarrow> bool" where
  "is_key_name n \<longleftrightarrow>
     n = [] \<or> length n = 1 \<or> map_of get_name_to_functional_number_map n \<noteq> None"

section \<open>The shape of the encoder's output\<close>

text \<open>
  The pieces \<^verbatim>\<open>encode_key_event\<close> assembles, named so that its output can be stated as
  one string (lemma \<open>encode_shape\<close> below): the trailer before and after the test on
  \<^verbatim>\<open>tilde_trailers\<close>, the first integer, the action number, the modifier mask computed
  from the four booleans, the first section, and the second and third sections together.
\<close>

definition trailer0 :: "pystr \<Rightarrow> int \<Rightarrow> pystr" where
  "trailer0 n c =
     (if n = S ''ENTER'' then S ''u''
      else dict_get get_csi_number_to_letter_trailer_map c (S ''u''))"

definition final_trailer :: "pystr \<Rightarrow> int \<Rightarrow> pystr" where
  "final_trailer n c =
     (case map_of get_name_to_functional_number_map n of
        None \<Rightarrow> trailer0 n c
      | Some fn \<Rightarrow> if fn \<in> set tilde_trailers then S ''~'' else trailer0 n c)"

definition first_int :: "pystr \<Rightarrow> int \<Rightarrow> int" where
  "first_int n c = (if trailer0 n c \<noteq> S ''u'' then 1 else c)"

definition wire_action :: "EventType \<Rightarrow> int" where
  "wire_action ty = (if ty = REPEAT then 2 else if ty = RELEASE then 3 else 1)"

definition wire_mods :: "bool \<Rightarrow> bool \<Rightarrow> bool \<Rightarrow> bool \<Rightarrow> int" where
  "wire_mods sh al ct su =
     (let m = (0::int);
          m = (if sh then m OR 1 else m);
          m = (if al then m OR 2 else m);
          m = (if ct then m OR 4 else m);
          m = (if su then m OR 8 else m)
      in m)"

definition first_section_str :: "int \<Rightarrow> int \<Rightarrow> int \<Rightarrow> bool \<Rightarrow> pystr" where
  "first_section_str k sk ak others =
     (if k \<noteq> 1 \<or> others \<or> sk \<noteq> 0 \<or> ak \<noteq> 0 then py_str k else []) @
     (if sk \<noteq> 0 \<or> ak \<noteq> 0 then
        58 # (if sk \<noteq> 0 then py_str sk else []) @ (if ak \<noteq> 0 then 58 # py_str ak else [])
      else [])"

definition second_section_str :: "int \<Rightarrow> int \<Rightarrow> pystr" where
  "second_section_str m action =
     (if action > 1 \<or> m \<noteq> 0 then
        py_str (m + 1) @ (if action > 1 then 58 # py_str action else [])
      else [])"

definition rest_str :: "int \<Rightarrow> int \<Rightarrow> int \<Rightarrow> pystr \<Rightarrow> pystr" where
  "rest_str mds m action txt =
     (if (mds \<noteq> 0 \<or> action > 1 \<or> txt \<noteq> []) \<and> (action > 1 \<or> m \<noteq> 0 \<or> txt \<noteq> [])
      then 59 # second_section_str m action else []) @
     (if txt \<noteq> [] then 59 # join_str [58] (map (\<lambda>c. py_str (int c)) txt) else [])"

section \<open>Evaluation and basic facts\<close>

lemmas table_defs = functional_key_number_to_name_map_def
  csi_number_to_functional_number_map_def letter_trailer_to_csi_number_map_def
  tilde_trailers_def get_name_to_functional_number_map_def
  get_functional_to_csi_number_map_def get_csi_number_to_letter_trailer_map_def invert_def

lemmas int_defs = py_int_def strip_space_def int_space_def digit_value_def nd_zeros_def

lemmas decode_defs = decode_key_event_def get_sub_sections_def bindE_def key_name_def
  effective_keynum_def action_type_def dict_get_def py_chr_def SHIFT_def ALT_def CTRL_def
  SUPER_def

lemmas encode_defs = encode_key_event_def csi_number_for_name_def dict_get_def bindE_def
  py_ord_def

lemmas parse_defs = parse_shortcut_def shortcut_parts_def endswith_def py_upper_def
  config_mod_map_def dict_get_def CTRL_def SHIFT_def ALT_def SUPER_def

lemma S_simps: "S [] = []" "S (c # cs) = of_char c # S cs"
  by (simp_all add: S_def)

lemma digits_small: "n < 10 \<Longrightarrow> digits n = [48 + n]"
  by (simp add: digits.simps)

lemma bindE_InrD: "bindE m f = Inr y \<Longrightarrow> \<exists>x. m = Inr x \<and> f x = Inr y"
  by (cases m) (simp_all add: bindE_def)

section \<open>Strings of digits\<close>

text \<open>\<^verbatim>\<open>int(str(k)) == k\<close>, and what \<^verbatim>\<open>split\<close> does to a string built around separators.\<close>


lemma digits_nonempty: "digits n \<noteq> []"
  by (subst digits.simps) simp

lemma digits_range: "c \<in> set (digits n) \<Longrightarrow> 48 \<le> c \<and> c \<le> 57"
proof (induction n arbitrary: c rule: digits.induct)
  case (1 n)
  show ?case
  proof (cases "n < 10")
    case True
    with "1.prems" show ?thesis by (simp add: digits_small)
  next
    case False
    have "digits n = digits (n div 10) @ [48 + n mod 10]"
      using False by (subst digits.simps) simp
    with "1.prems" have "c \<in> set (digits (n div 10)) \<or> c = 48 + n mod 10" by auto
    then show ?thesis
    proof
      assume "c \<in> set (digits (n div 10))"
      then show ?thesis using "1.IH" False by blast
    next
      assume "c = 48 + n mod 10"
      moreover have "n mod 10 < 10" by simp
      ultimately show ?thesis by linarith
    qed
  qed
qed

lemma digit_value_ascii: "48 \<le> c \<Longrightarrow> c \<le> 57 \<Longrightarrow> digit_value c = Some (c - 48)"
  by (simp add: digit_value_def nd_zeros_def)

lemma digit_seq_ascii:
  "s \<noteq> [] \<Longrightarrow> \<forall>c\<in>set s. 48 \<le> c \<and> c \<le> 57 \<Longrightarrow> digit_seq s = Some (map (\<lambda>c. c - 48) s)"
proof (induction s rule: digit_seq.induct)
  case 1
  then show ?case by simp
next
  case (2 c)
  then show ?case by (simp add: digit_value_ascii)
next
  case (3 c c' cs)
  then have "c' \<noteq> 95" by auto
  with 3 show ?case by (simp add: digit_value_ascii)
qed

lemma digits_value: "foldl (\<lambda>a d. 10 * a + d) 0 (map (\<lambda>c. c - 48) (digits n)) = n"
proof (induction n rule: digits.induct)
  case (1 n)
  show ?case
  proof (cases "n < 10")
    case True
    then show ?thesis by (simp add: digits_small)
  next
    case False
    have "digits n = digits (n div 10) @ [48 + n mod 10]"
      using False by (subst digits.simps) simp
    then show ?thesis using "1.IH" False by simp
  qed
qed

lemma strip_space_id:
  assumes "\<forall>c\<in>set s. \<not> int_space c"
  shows "strip_space s = s"
proof (cases "s = []")
  case True
  then show ?thesis by (simp add: strip_space_def)
next
  case False
  then have "\<not> int_space (hd s)" and "\<not> int_space (hd (rev s))"
    using assms by (simp_all add: hd_rev)
  then have "dropWhile int_space s = s" and "dropWhile int_space (rev s) = rev s"
    by (simp_all add: dropWhile_eq_self_iff)
  then show ?thesis
    by (simp add: strip_space_def)
qed

lemma digit_not_space: "48 \<le> c \<Longrightarrow> c \<le> 57 \<Longrightarrow> \<not> int_space c"
  by (auto simp add: int_space_def)

lemma py_int_digits: "py_int (digits n) = Inr (int n)"
proof -
  have r: "\<forall>c\<in>set (digits n). 48 \<le> c \<and> c \<le> 57"
    using digits_range by blast
  then have "strip_space (digits n) = digits n"
    by (intro strip_space_id ballI) (simp add: digit_not_space)
  moreover have "hd (digits n) \<in> set (digits n)"
    by (simp add: digits_nonempty)
  then have "hd (digits n) \<noteq> 45" and "hd (digits n) \<noteq> 43"
    using r by fastforce+
  ultimately show ?thesis
    by (simp add: py_int_def digit_seq_ascii [OF digits_nonempty r] digits_value Let_def)
qed

lemma py_int_py_str: "py_int (py_str k) = Inr k"
proof (cases "k < 0")
  case False
  then show ?thesis by (simp add: py_str_def py_int_digits)
next
  case True
  let ?n = "nat (- k)"
  have r: "\<forall>c\<in>set (digits ?n). 48 \<le> c \<and> c \<le> 57"
    using digits_range by blast
  have "\<forall>c\<in>set (45 # digits ?n). \<not> int_space c"
    using r by (auto simp add: int_space_def dest!: bspec)
  then have "strip_space (45 # digits ?n) = 45 # digits ?n"
    by (rule strip_space_id)
  then show ?thesis using True
    by (simp add: py_str_def py_int_def digit_seq_ascii [OF digits_nonempty r] digits_value Let_def)
qed

lemma py_str_nonempty: "py_str k \<noteq> []"
  by (simp add: py_str_def digits_nonempty)

lemma py_str_chars: "0 \<le> k \<Longrightarrow> c \<in> set (py_str k) \<Longrightarrow> 48 \<le> c \<and> c \<le> 57"
  by (simp add: py_str_def digits_range)

subsection \<open>Splitting\<close>


lemma split_str_none: "sep \<notin> set s \<Longrightarrow> split_str sep s = [s]"
  by (induction s) simp_all

lemma split_str_append:
  "sep \<notin> set a \<Longrightarrow> split_str sep (a @ sep # b) = a # split_str sep b"
  by (induction a) simp_all



section \<open>Looking up the tables\<close>

text \<open>
  Names are compared as literals (\<open>S\<close> is injective), and a lookup steps through a table
  without normalising the rest of it.
\<close>

lemma S_eq_iff: "S a = S b \<longleftrightarrow> a = b"
  by (simp add: S_def inj_map_eq_map inj_of_char)

lemma S_Nil_iff: "S a = [] \<longleftrightarrow> a = []" "[] = S a \<longleftrightarrow> a = []"
  by (auto simp add: S_def)

lemma length_S: "length (S a) = length a"
  by (simp add: S_def)

lemmas S_facts = S_eq_iff S_Nil_iff length_S

lemma map_of_key_cong: "k = k' \<Longrightarrow> map_of ps k = map_of ps k'"
  by simp

lemma map_of_rev_distinct: "distinct (map fst xs) \<Longrightarrow> map_of (rev xs) k = map_of xs k"
proof (cases "map_of xs k")
  case None
  then have "k \<notin> fst ` set (rev xs)" by (simp add: map_of_eq_None_iff)
  then have "map_of (rev xs) k = None" by (simp add: map_of_eq_None_iff)
  with None show ?thesis by simp
next
  case (Some v)
  assume d: "distinct (map fst xs)"
  then have "distinct (map fst (rev xs))" by (simp add: rev_map [symmetric])
  moreover have "(k, v) \<in> set (rev xs)" using Some by (simp add: map_of_SomeD)
  ultimately show ?thesis using Some by simp
qed

lemma map_of_invert:
  assumes "distinct (map snd d)"
  shows "map_of (invert d) x = map_of (map (\<lambda>(k, v). (v, k)) d) x"
proof -
  have eq: "map fst (map (\<lambda>(k, v). (v, k)) d) = map snd d"
    by (induction d) auto
  have "distinct (map fst (map (\<lambda>(k, v). (v, k)) d))"
    unfolding eq by (rule assms)
  then show ?thesis
    unfolding invert_def by (rule map_of_rev_distinct)
qed

lemma map_of_swap_Nil: "map_of (map (\<lambda>(k, v). (v, k)) []) x = None"
  by simp

lemma map_of_swap_Cons:
  "map_of (map (\<lambda>(k, v). (v, k)) ((a, b) # ps)) x =
     (if b = x then Some a else map_of (map (\<lambda>(k, v). (v, k)) ps) x)"
  by simp

lemma distinct_names: "distinct (map snd functional_key_number_to_name_map)"
  apply (simp add: functional_key_number_to_name_map_def S_eq_iff)
  done

lemma distinct_numbers: "distinct (map fst functional_key_number_to_name_map)"
  by (simp add: functional_key_number_to_name_map_def)

lemma distinct_csi: "distinct (map fst csi_number_to_functional_number_map)"
  "distinct (map snd csi_number_to_functional_number_map)"
  by (simp_all add: csi_number_to_functional_number_map_def)

lemma distinct_letters: "distinct (map fst letter_trailer_to_csi_number_map)"
  "distinct (map snd letter_trailer_to_csi_number_map)"
  by (simp_all add: letter_trailer_to_csi_number_map_def S_eq_iff)

lemma n2f_lookup0: "map_of get_name_to_functional_number_map x =
    map_of (map (\<lambda>(k, v). (v, k)) functional_key_number_to_name_map) x"
  by (simp only: get_name_to_functional_number_map_def map_of_invert [OF distinct_names])

lemma f2c_lookup0: "map_of get_functional_to_csi_number_map x =
    map_of (map (\<lambda>(k, v). (v, k)) csi_number_to_functional_number_map) x"
  by (simp only: get_functional_to_csi_number_map_def map_of_invert [OF distinct_csi(2)])

lemma c2l_lookup0: "map_of get_csi_number_to_letter_trailer_map x =
    map_of (map (\<lambda>(k, v). (v, k)) letter_trailer_to_csi_number_map) x"
  by (simp only: get_csi_number_to_letter_trailer_map_def map_of_invert [OF distinct_letters(2)])

lemmas lookups =
  functional_key_number_to_name_map_def [THEN arg_cong [where f = map_of], THEN fun_cong]
  csi_number_to_functional_number_map_def [THEN arg_cong [where f = map_of], THEN fun_cong]
  letter_trailer_to_csi_number_map_def [THEN arg_cong [where f = map_of], THEN fun_cong]
  n2f_lookup0 [unfolded functional_key_number_to_name_map_def]
  f2c_lookup0 [unfolded csi_number_to_functional_number_map_def]
  c2l_lookup0 [unfolded letter_trailer_to_csi_number_map_def]
  map_of_Cons_code map_of_swap_Nil map_of_swap_Cons

lemma functional_names_sub:
  "list_all (\<lambda>(fn, n).
     n \<noteq> [] \<and> length n \<noteq> 1 \<and> fn \<noteq> 0 \<and> map_of get_name_to_functional_number_map n = Some fn \<and>
     0 < dict_get get_functional_to_csi_number_map fn fn \<and>
     dict_get get_functional_to_csi_number_map fn fn \<noteq> 1 \<and>
     (n = S ''ENTER'' \<or> key_name t (dict_get get_functional_to_csi_number_map fn fn) = Inr n) \<and>
     key_name (S ''u'') (dict_get get_functional_to_csi_number_map fn fn) = Inr n)
   functional_key_number_to_name_map"
  apply (simp only: functional_key_number_to_name_map_def list.pred_inject case_prod_conv)
  apply (simp add: lookups dict_get_def key_name_def S_facts del: map_of.simps cong: map_of_key_cong)
  done

lemma py_in_letters:
  "\<not> py_in (S ''u'') (S ''ABCDHFPQRS'')" "\<not> py_in (S ''~'') (S ''ABCDHFPQRS'')"
  "py_in (S ''A'') (S ''ABCDHFPQRS'')" "py_in (S ''B'') (S ''ABCDHFPQRS'')"
  "py_in (S ''C'') (S ''ABCDHFPQRS'')" "py_in (S ''D'') (S ''ABCDHFPQRS'')"
  "py_in (S ''F'') (S ''ABCDHFPQRS'')" "py_in (S ''H'') (S ''ABCDHFPQRS'')"
  "py_in (S ''P'') (S ''ABCDHFPQRS'')" "py_in (S ''Q'') (S ''ABCDHFPQRS'')"
  "py_in (S ''R'') (S ''ABCDHFPQRS'')" "py_in (S ''S'') (S ''ABCDHFPQRS'')"
  by (simp_all add: S_simps)

lemma functional_names_key:
  "list_all (\<lambda>(fn, n).
     let c = dict_get get_functional_to_csi_number_map fn fn;
         T0 = trailer0 n c;
         T = (if fn \<in> set tilde_trailers then S ''~'' else T0)
     in length T = 1 \<and>
        (if T0 = S ''u'' then \<not> py_in T (S ''ABCDHFPQRS'') \<and> key_name T c = Inr n
         else T = T0 \<and> py_in T (S ''ABCDHFPQRS'') \<and>
              bindE (effective_keynum T fs) (key_name T) = Inr n))
   functional_key_number_to_name_map"
  apply (simp only: functional_key_number_to_name_map_def list.pred_inject case_prod_conv)
  apply (simp add: lookups dict_get_def key_name_def S_facts trailer0_def tilde_trailers_def
     py_in_letters effective_keynum_def bindE_def del: map_of.simps cong: map_of_key_cong)
  done

lemma csi_values_functional:
  "list_all (\<lambda>(c, fn). map_of functional_key_number_to_name_map fn \<noteq> None \<and> c \<noteq> 0)
     csi_number_to_functional_number_map"
  apply (simp only: csi_number_to_functional_number_map_def list.pred_inject case_prod_conv)
  apply (simp add: lookups del: map_of.simps cong: map_of_key_cong)
  done

lemma letter_numbers_known:
  "list_all (\<lambda>(L, x). map_of functional_key_number_to_name_map x \<noteq> None \<or>
       map_of csi_number_to_functional_number_map x \<noteq> None \<or> x = 13)
     letter_trailer_to_csi_number_map"
  apply (simp only: letter_trailer_to_csi_number_map_def list.pred_inject case_prod_conv)
  apply (simp add: lookups del: map_of.simps cong: map_of_key_cong)
  done

section \<open>The names the decoder produces\<close>

lemma list_allD: "list_all P xs \<Longrightarrow> x \<in> set xs \<Longrightarrow> P x"
  by (simp add: list_all_iff)

lemma n2f_SomeD:
  "map_of get_name_to_functional_number_map n = Some fn \<Longrightarrow>
     (fn, n) \<in> set functional_key_number_to_name_map"
  by (auto simp add: n2f_lookup0 dest!: map_of_SomeD)

lemma n2f_SomeI:
  assumes "(fn, n) \<in> set functional_key_number_to_name_map"
  shows "map_of get_name_to_functional_number_map n = Some fn"
  using list_allD [OF functional_names_sub [of "[]"] assms] by simp

lemma name_in_table:
  "(57345, S ''ENTER'') \<in> set functional_key_number_to_name_map"
  "(57366, S ''F3'') \<in> set functional_key_number_to_name_map"
  by (simp_all add: functional_key_number_to_name_map_def S_facts)

lemma key_name_cases:
  assumes "key_name t num = Inr n"
  shows "n = [] \<or> (\<exists>fn. (fn, n) \<in> set functional_key_number_to_name_map) \<or>
     (\<exists>ch. n = [ch] \<and> ch \<noteq> 0 \<and> ch \<noteq> 13 \<and> ch < 1114112 \<and>
        map_of csi_number_to_functional_number_map (int ch) = None \<and>
        map_of functional_key_number_to_name_map (int ch) = None)"
proof (cases "num = 0 \<or> num = 13")
  case True
  then show ?thesis
    using assms name_in_table by (auto simp add: key_name_def split: if_splits)
next
  case False
  define num' where "num' = dict_get csi_number_to_functional_number_map num num"
  show ?thesis
  proof (cases "map_of functional_key_number_to_name_map num'")
    case (Some ans)
    then have "n = ans"
      using assms False by (simp add: key_name_def num'_def)
    with Some show ?thesis by (blast dest: map_of_SomeD)
  next
    case None
    then have chr: "py_chr num' = Inr n"
      using assms False by (simp add: key_name_def num'_def)
    have nc: "map_of csi_number_to_functional_number_map num = None"
    proof (rule ccontr)
      assume "map_of csi_number_to_functional_number_map num \<noteq> None"
      then obtain v where v: "map_of csi_number_to_functional_number_map num = Some v"
        by blast
      then have "(num, v) \<in> set csi_number_to_functional_number_map"
        by (rule map_of_SomeD)
      with csi_values_functional
      have "map_of functional_key_number_to_name_map v \<noteq> None"
        by (auto dest!: list_allD)
      moreover have "num' = v" using v by (simp add: num'_def dict_get_def)
      ultimately show False using None by simp
    qed
    then have eq: "num' = num" by (simp add: num'_def dict_get_def)
    from chr have "0 \<le> num" and "num < 1114112" and "n = [nat num]"
      by (auto simp add: py_chr_def eq split: if_splits)
    then show ?thesis
      using False None nc eq by auto
  qed
qed

lemma functional_name_basic:
  assumes "(fn, n) \<in> set functional_key_number_to_name_map"
  shows "n \<noteq> []" and "length n \<noteq> 1"
    and "map_of get_name_to_functional_number_map n = Some fn"
    and "0 < dict_get get_functional_to_csi_number_map fn fn"
    and "dict_get get_functional_to_csi_number_map fn fn \<noteq> 1"
    and "n \<noteq> S ''ENTER'' \<Longrightarrow> key_name t (dict_get get_functional_to_csi_number_map fn fn) = Inr n"
    and "key_name (S ''u'') (dict_get get_functional_to_csi_number_map fn fn) = Inr n"
    and "fn \<noteq> 0"
  using list_allD [OF functional_names_sub [of t] assms] by simp_all

lemma n2f_single: "map_of get_name_to_functional_number_map [ch] = None"
proof (cases "map_of get_name_to_functional_number_map [ch]")
  case None
  then show ?thesis .
next
  case (Some fn)
  then have "(fn, [ch]) \<in> set functional_key_number_to_name_map"
    by (rule n2f_SomeD)
  then have "length [ch] \<noteq> 1" by (rule functional_name_basic)
  then show ?thesis by simp
qed

lemma n2f_empty: "map_of get_name_to_functional_number_map [] = None"
proof (cases "map_of get_name_to_functional_number_map []")
  case None
  then show ?thesis .
next
  case (Some fn)
  then have "(fn, []) \<in> set functional_key_number_to_name_map"
    by (rule n2f_SomeD)
  then have "[] \<noteq> ([]::pystr)" by (rule functional_name_basic)
  then show ?thesis by simp
qed

lemma c2l_None:
  assumes "map_of csi_number_to_functional_number_map x = None"
    and "map_of functional_key_number_to_name_map x = None" and "x \<noteq> 13"
  shows "map_of get_csi_number_to_letter_trailer_map x = None"
proof (cases "map_of get_csi_number_to_letter_trailer_map x")
  case None
  then show ?thesis .
next
  case (Some L)
  then have "(L, x) \<in> set letter_trailer_to_csi_number_map"
    by (auto simp add: c2l_lookup0 dest!: map_of_SomeD)
  with letter_numbers_known assms show ?thesis
    by (auto dest!: list_allD)
qed

text \<open>A name the decoder has produced has a CSI number, and the number gives the name back,
  except for \<^verbatim>\<open>ENTER\<close>, whose number 13 needs the trailer \<^verbatim>\<open>u\<close>.\<close>

lemma sub_facts:
  assumes "key_name t num = Inr n"
  shows "\<exists>c. csi_number_for_name n = Inr c \<and> 0 \<le> c \<and> (c = 0 \<longleftrightarrow> n = []) \<and>
     (n \<noteq> S ''ENTER'' \<longrightarrow> key_name t' c = Inr n) \<and> key_name (S ''u'') c = Inr n"
  using key_name_cases [OF assms]
proof (elim disjE exE conjE)
  assume "n = []"
  then show ?thesis by (simp add: csi_number_for_name_def key_name_def)
next
  fix fn assume m: "(fn, n) \<in> set functional_key_number_to_name_map"
  let ?c = "dict_get get_functional_to_csi_number_map fn fn"
  note f = functional_name_basic [OF m]
  have "csi_number_for_name n = Inr ?c"
    using f(1,3) by (simp add: csi_number_for_name_def)
  with f(1,4,7) f(6) [of t'] show ?thesis by auto
next
  fix ch assume c: "n = [ch]" "ch \<noteq> 0" "ch \<noteq> 13" "ch < 1114112"
    "map_of csi_number_to_functional_number_map (int ch) = None"
    "map_of functional_key_number_to_name_map (int ch) = None"
  have "csi_number_for_name n = Inr (int ch)"
    using c by (simp add: csi_number_for_name_def n2f_single py_ord_def)
  moreover have "key_name t'' (int ch) = Inr n" for t''
    using c by (simp add: key_name_def dict_get_def py_chr_def)
  ultimately show ?thesis using c by auto
qed

text \<open>The same for the key itself, with the trailer the encoder chooses for it: decoding
  with that trailer gives the key back from a first section that starts with the integer
  the encoder writes, and from any first section when the trailer is a letter.\<close>

lemma key_facts:
  assumes "key_name t num = Inr n"
  shows "\<exists>c T. csi_number_for_name n = Inr c \<and> 0 \<le> c \<and> final_trailer n c = [T] \<and>
     0 \<le> first_int n c \<and>
     (first_int n c = 1 \<longrightarrow> n = [1] \<or> py_in [T] (S ''ABCDHFPQRS'')) \<and>
     (\<forall>fs. fs ! 0 = first_int n c \<or> py_in [T] (S ''ABCDHFPQRS'') \<longrightarrow>
        bindE (effective_keynum [T] fs) (key_name [T]) = Inr n)"
  using key_name_cases [OF assms]
proof (elim disjE exE conjE)
  assume n: "n = []"
  have "map_of get_csi_number_to_letter_trailer_map 0 = None"
    by (rule c2l_None) (simp_all add: lookups del: map_of.simps cong: map_of_key_cong)
  then have "final_trailer n 0 = S ''u''" "first_int n 0 = 0"
    by (simp_all add: final_trailer_def first_int_def trailer0_def n n2f_empty dict_get_def S_facts)
  then show ?thesis
    using n py_in_letters(1)
    by (auto simp add: csi_number_for_name_def S_simps effective_keynum_def bindE_def key_name_def)
next
  fix fn assume m: "(fn, n) \<in> set functional_key_number_to_name_map"
  let ?c = "dict_get get_functional_to_csi_number_map fn fn"
  let ?T = "if fn \<in> set tilde_trailers then S ''~'' else trailer0 n ?c"
  note f = functional_name_basic(1-5) [OF m]
  have c: "csi_number_for_name n = Inr ?c"
    using f by (simp add: csi_number_for_name_def)
  have T: "final_trailer n ?c = ?T"
    using f by (simp add: final_trailer_def)
  have k: "length ?T = 1 \<and>
        (if trailer0 n ?c = S ''u'' then \<not> py_in ?T (S ''ABCDHFPQRS'') \<and> key_name ?T ?c = Inr n
         else ?T = trailer0 n ?c \<and> py_in ?T (S ''ABCDHFPQRS'') \<and>
              bindE (effective_keynum ?T fs) (key_name ?T) = Inr n)" for fs
    using list_allD [OF functional_names_key [of fs] m]
    by (auto simp add: Let_def split: if_splits)
  from k obtain ch where ch: "?T = [ch]"
    by (cases ?T) auto
  show ?thesis
  proof (cases "trailer0 n ?c = S ''u''")
    case True
    then have "first_int n ?c = ?c" by (simp add: first_int_def)
    moreover have "\<not> py_in [ch] (S ''ABCDHFPQRS'')" "key_name [ch] ?c = Inr n"
      using k True ch by auto
    ultimately show ?thesis
      using c T ch f by (auto simp add: effective_keynum_def bindE_def)
  next
    case False
    then have "first_int n ?c = 1" by (simp add: first_int_def)
    moreover have "py_in [ch] (S ''ABCDHFPQRS'')"
      "bindE (effective_keynum [ch] fs) (key_name [ch]) = Inr n" for fs
      using k [of fs] False ch by auto
    ultimately show ?thesis
      using c T ch f by auto
  qed
next
  fix ch assume c: "n = [ch]" "ch \<noteq> 0" "ch \<noteq> 13" "ch < 1114112"
    "map_of csi_number_to_functional_number_map (int ch) = None"
    "map_of functional_key_number_to_name_map (int ch) = None"
  have cs: "csi_number_for_name n = Inr (int ch)"
    using c by (simp add: csi_number_for_name_def n2f_single py_ord_def)
  have kn: "key_name t'' (int ch) = Inr n" for t''
    using c by (simp add: key_name_def dict_get_def py_chr_def)
  have "map_of get_csi_number_to_letter_trailer_map (int ch) = None"
    using c by (intro c2l_None) auto
  then have "trailer0 n (int ch) = S ''u''"
    by (simp add: trailer0_def dict_get_def)
  then have T: "final_trailer n (int ch) = S ''u''" "first_int n (int ch) = int ch"
    using c by (simp_all add: final_trailer_def first_int_def n2f_single)
  have "\<not> py_in (S ''u'') (S ''ABCDHFPQRS'')" by (rule py_in_letters)
  then show ?thesis
    using cs kn T c by (auto simp add: S_simps effective_keynum_def bindE_def)
qed

section \<open>Decoding what the encoder writes\<close>

lemma py_str_no_sep: "0 \<le> k \<Longrightarrow> 58 \<notin> set (py_str k)" "0 \<le> k \<Longrightarrow> 59 \<notin> set (py_str k)"
  using py_str_chars [of k] by fastforce+

lemma get_sub_sections_single:
  "58 \<notin> set a \<Longrightarrow>
     get_sub_sections a d = bindE (if a \<noteq> [] then py_int a else Inr d) (\<lambda>y. Inr [y])"
  by (simp add: get_sub_sections_def split_str_none bindE_def split: sum.splits)

lemma get_sub_sections_cons:
  "58 \<notin> set a \<Longrightarrow>
     get_sub_sections (a @ 58 # b) d =
       bindE (if a \<noteq> [] then py_int a else Inr d)
         (\<lambda>y. bindE (get_sub_sections b d) (\<lambda>ys. Inr (y # ys)))"
  by (simp add: get_sub_sections_def split_str_append)

lemma get_sub_sections_empty: "get_sub_sections [] d = Inr [d]"
  by (simp add: get_sub_sections_def bindE_def)

lemma get_sub_sections_num: "0 \<le> k \<Longrightarrow> get_sub_sections (py_str k) d = Inr [k]"
  by (simp add: get_sub_sections_single py_str_no_sep py_str_nonempty py_int_py_str bindE_def)

lemma get_sub_sections_num_cons:
  "0 \<le> k \<Longrightarrow> get_sub_sections (py_str k @ 58 # b) d
     = bindE (get_sub_sections b d) (\<lambda>ys. Inr (k # ys))"
  by (simp add: get_sub_sections_cons py_str_no_sep py_str_nonempty py_int_py_str bindE_def)

lemma get_sub_sections_colon:
  "get_sub_sections (58 # b) d = bindE (get_sub_sections b d) (\<lambda>ys. Inr (d # ys))"
  using get_sub_sections_cons [of "[]" b d] by (simp add: bindE_def)

lemma get_sub_sections_join:
  "xs \<noteq> [] \<Longrightarrow> get_sub_sections (join_str [58] (map (\<lambda>c. py_str (int c)) xs)) d = Inr (map int xs)"
proof (induction xs rule: induct_list012)
  case 1
  then show ?case by simp
next
  case (2 x)
  then show ?case by (simp add: get_sub_sections_num)
next
  case (3 x y zs)
  then show ?case by (simp add: get_sub_sections_num_cons bindE_def)
qed

lemma join_no_semicolon: "59 \<notin> set (join_str [58] (map (\<lambda>c. py_str (int c)) xs))"
  by (induction xs rule: induct_list012) (simp_all add: py_str_no_sep)

lemma mapE_chr: "\<forall>c\<in>set xs. c < 1114112 \<Longrightarrow> mapE py_chr (map int xs) = Inr (map (\<lambda>c. [c]) xs)"
  by (induction xs) (simp_all add: py_chr_def bindE_def)

lemma concat_singletons: "concat (map (\<lambda>c. [c]) xs) = xs"
  by (induction xs) simp_all

text \<open>The first section.\<close>

lemma first_section_no_semicolon:
  "0 \<le> k \<Longrightarrow> 0 \<le> sk \<Longrightarrow> 0 \<le> ak \<Longrightarrow> 59 \<notin> set (first_section_str k sk ak others)"
  by (simp add: first_section_str_def py_str_no_sep)

lemma first_section_decode:
  assumes "0 \<le> k" and "0 \<le> sk" and "0 \<le> ak"
  shows "get_sub_sections (first_section_str k sk ak others) 0 =
    Inr ((if k \<noteq> 1 \<or> others \<or> sk \<noteq> 0 \<or> ak \<noteq> 0 then k else 0) #
         (if sk \<noteq> 0 \<or> ak \<noteq> 0 then sk # (if ak \<noteq> 0 then [ak] else []) else []))"
  using assms
  by (simp add: first_section_str_def get_sub_sections_num get_sub_sections_num_cons
      get_sub_sections_colon get_sub_sections_empty bindE_def)

text \<open>The second section.\<close>

lemma second_section_no_semicolon:
  "0 \<le> m \<Longrightarrow> 0 \<le> action \<Longrightarrow> 59 \<notin> set (second_section_str m action)"
  by (simp add: second_section_str_def py_str_no_sep)

lemma second_section_decode:
  assumes "0 \<le> m" and "0 \<le> action"
  shows "get_sub_sections (second_section_str m action) 1 =
    Inr (if action > 1 \<or> m \<noteq> 0 then (m + 1) # (if action > 1 then [action] else []) else [1])"
  using assms
  by (simp add: second_section_str_def get_sub_sections_num get_sub_sections_num_cons
      get_sub_sections_empty bindE_def)

lemma split_rest:
  assumes "59 \<notin> set a" and "0 \<le> m" and "0 \<le> action"
  shows "split_str 59 (a @ rest_str m m action txt) =
    a # (if m \<noteq> 0 \<or> action > 1 \<or> txt \<noteq> [] then
           second_section_str m action #
             (if txt \<noteq> [] then [join_str [58] (map (\<lambda>c. py_str (int c)) txt)] else [])
         else [])"
  using assms
  by (simp add: rest_str_def split_str_append split_str_none second_section_no_semicolon
      join_no_semicolon)

lemma action_type_wire: "action_type (wire_action ty) = Inr ty"
  by (cases ty) (simp_all add: action_type_def wire_action_def)

lemma wire_action_range: "1 \<le> wire_action ty" "wire_action ty \<le> 3"
  by (simp_all add: wire_action_def)

lemma decode_sections:
  assumes "get_sub_sections (split_str 59 csi ! 0) 0 = Inr fs"
    and "(if length (split_str 59 csi) > 1 then get_sub_sections (split_str 59 csi ! 1) 1
          else Inr []) = Inr ss"
    and "(if length (split_str 59 csi) > 2 then get_sub_sections (split_str 59 csi ! 2) 0
          else Inr []) = Inr ts"
    and "(if ss \<noteq> [] then ss ! 0 - 1 else 0) = m"
    and "(if length ss > 1 then ss ! 1 else 1) = a"
    and "effective_keynum T fs = Inr kv" and "key_name T kv = Inr kn"
    and "key_name T (if length fs > 1 then fs ! 1 else 0) = Inr sn"
    and "key_name T (if length fs > 2 then fs ! 2 else 0) = Inr an"
    and "action_type a = Inr ty"
    and "mapE py_chr ts = Inr chars"
  shows "decode_key_event csi T =
    Inr \<lparr>type = ty, mods = m, key = kn, text_of = concat chars, shifted_key = sn,
         alternate_key = an, shift = (m AND SHIFT \<noteq> 0), alt = (m AND ALT \<noteq> 0),
         ctrl = (m AND CTRL \<noteq> 0), super = (m AND SUPER \<noteq> 0)\<rparr>"
  unfolding decode_key_event_def Let_def
  by (simp only: assms bindE_def sum.case)

lemma decode_encoded:
  assumes nn: "0 \<le> k" "0 \<le> sk" "0 \<le> ak" "0 \<le> m"
    and tx: "\<forall>c\<in>set txt. c < 1114112"
    and K: "\<And>fs. fs ! 0 = (if k \<noteq> 1 \<or> (m \<noteq> 0 \<or> txt \<noteq> []) \<or> sk \<noteq> 0 \<or> ak \<noteq> 0 then k else 0)
              \<Longrightarrow> bindE (effective_keynum T fs) (key_name T) = Inr kn"
    and SK: "key_name T sk = Inr sn" and AK: "key_name T ak = Inr an"
  shows "decode_key_event
      (first_section_str k sk ak (m \<noteq> 0 \<or> txt \<noteq> []) @ rest_str m m (wire_action ty) txt) T =
    Inr \<lparr>type = ty, mods = m, key = kn, text_of = txt, shifted_key = sn, alternate_key = an,
         shift = (m AND SHIFT \<noteq> 0), alt = (m AND ALT \<noteq> 0), ctrl = (m AND CTRL \<noteq> 0),
         super = (m AND SUPER \<noteq> 0)\<rparr>"
proof -
  define a where "a = wire_action ty"
  define oth where "oth \<longleftrightarrow> m \<noteq> 0 \<or> txt \<noteq> []"
  define p0 where "p0 = first_section_str k sk ak oth"
  define p1 where "p1 = second_section_str m a"
  define p2 where "p2 = join_str [58] (map (\<lambda>c. py_str (int c)) txt)"
  define csi where "csi = p0 @ rest_str m m a txt"
  define fs where "fs = (if k \<noteq> 1 \<or> oth \<or> sk \<noteq> 0 \<or> ak \<noteq> 0 then k else 0) #
         (if sk \<noteq> 0 \<or> ak \<noteq> 0 then sk # (if ak \<noteq> 0 then [ak] else []) else [])"
  define ss where "ss = (if m \<noteq> 0 \<or> a > 1 \<or> txt \<noteq> [] then
       (if a > 1 \<or> m \<noteq> 0 then (m + 1) # (if a > 1 then [a] else []) else [1]) else [])"
  define ts where "ts = map int txt"
  have a: "1 \<le> a" "a \<le> 3"
    using wire_action_range [of ty] by (simp_all add: a_def)
  have a0: "0 \<le> a" using a by linarith
  have "59 \<notin> set p0"
    unfolding p0_def using nn(1-3) by (rule first_section_no_semicolon)
  then have parts: "split_str 59 csi =
      p0 # (if m \<noteq> 0 \<or> a > 1 \<or> txt \<noteq> [] then p1 # (if txt \<noteq> [] then [p2] else []) else [])"
    unfolding csi_def p1_def p2_def using nn(4) a0 by (rule split_rest)
  have first: "get_sub_sections p0 0 = Inr fs"
    unfolding fs_def p0_def using nn(1-3) by (rule first_section_decode)
  have second: "get_sub_sections p1 1 =
      Inr (if a > 1 \<or> m \<noteq> 0 then (m + 1) # (if a > 1 then [a] else []) else [1])"
    unfolding p1_def using nn(4) a0 by (rule second_section_decode)
  have third: "txt \<noteq> [] \<Longrightarrow> get_sub_sections p2 0 = Inr ts"
    unfolding p2_def ts_def by (rule get_sub_sections_join)
  have 1: "get_sub_sections (split_str 59 csi ! 0) 0 = Inr fs"
    by (simp add: parts first)
  have 2: "(if length (split_str 59 csi) > 1 then get_sub_sections (split_str 59 csi ! 1) 1
          else Inr []) = Inr ss"
    by (simp add: parts second ss_def)
  have 3: "(if length (split_str 59 csi) > 2 then get_sub_sections (split_str 59 csi ! 2) 0
          else Inr []) = Inr ts"
    by (simp add: parts third) (simp add: ts_def)
  have 4: "(if ss \<noteq> [] then ss ! 0 - 1 else 0) = m"
    by (simp add: ss_def)
  have 5: "(if length ss > 1 then ss ! 1 else 1) = a"
    using a by (simp add: ss_def)
  have "bindE (effective_keynum T fs) (key_name T) = Inr kn"
    by (rule K) (simp add: fs_def oth_def)
  then obtain kv where 6: "effective_keynum T fs = Inr kv" and 7: "key_name T kv = Inr kn"
    by (auto dest: bindE_InrD)
  have 8: "key_name T (if length fs > 1 then fs ! 1 else 0) = Inr sn"
    using SK by (auto simp add: fs_def)
  have 9: "key_name T (if length fs > 2 then fs ! 2 else 0) = Inr an"
    using AK by (auto simp add: fs_def)
  have 10: "action_type a = Inr ty"
    by (simp add: a_def action_type_wire)
  have 11: "mapE py_chr ts = Inr (map (\<lambda>c. [c]) txt)"
    unfolding ts_def using tx by (rule mapE_chr)
  show ?thesis
    using decode_sections [OF 1 2 3 4 5 6 7 8 9 10 11]
    by (simp only: csi_def p0_def oth_def a_def concat_singletons)
qed

section \<open>The encoder's output, and what the decoder returns\<close>

lemma encode_shape:
  assumes "csi_number_for_name (key e) = Inr k"
    and "csi_number_for_name (shifted_key e) = Inr sk"
    and "csi_number_for_name (alternate_key e) = Inr ak"
  shows "encode_key_event e =
    Inr (27 # 91 #
      first_section_str (first_int (key e) k) sk ak (mods e \<noteq> 0 \<or> text_of e \<noteq> []) @
      rest_str (mods e) (wire_mods (shift e) (alt e) (ctrl e) (super e)) (wire_action (type e)) (text_of e) @
      final_trailer (key e) k)"
  using assms
  by (simp add: encode_key_event_def bindE_def Let_def trailer0_def final_trailer_def first_int_def
      wire_action_def wire_mods_def first_section_str_def second_section_str_def rest_str_def S_simps
      split: option.splits)

lemma mapE_chr_range:
  "mapE py_chr xs = Inr chars \<Longrightarrow> \<forall>c\<in>set (concat chars). c < 1114112"
proof (induction xs arbitrary: chars)
  case Nil
  then show ?case by simp
next
  case (Cons x xs)
  from Cons.prems obtain y ys where y: "py_chr x = Inr y" and ys: "mapE py_chr xs = Inr ys"
    and c: "chars = y # ys"
    by (auto dest!: bindE_InrD)
  from y have "\<forall>c\<in>set y. c < 1114112"
    by (auto simp add: py_chr_def split: if_splits)
  with Cons.IH [OF ys] c show ?case by auto
qed

lemma decode_key_eventD:
  assumes "decode_key_event csi csi_type = Inr e"
  shows "\<exists>kn sn an. key_name csi_type kn = Inr (key e) \<and>
      key_name csi_type sn = Inr (shifted_key e) \<and>
      key_name csi_type an = Inr (alternate_key e)"
    and "\<forall>c\<in>set (text_of e). c < 1114112"
    and "shift e = (mods e AND SHIFT \<noteq> 0)" and "alt e = (mods e AND ALT \<noteq> 0)"
    and "ctrl e = (mods e AND CTRL \<noteq> 0)" and "super e = (mods e AND SUPER \<noteq> 0)"
  using assms unfolding decode_key_event_def Let_def
  by (auto dest!: bindE_InrD mapE_chr_range)

lemma wire_mods_bits:
  assumes "0 \<le> m" and "m \<le> 15"
  shows "wire_mods (m AND SHIFT \<noteq> 0) (m AND ALT \<noteq> 0) (m AND CTRL \<noteq> 0) (m AND SUPER \<noteq> 0) = m"
proof -
  from assms have "m \<in> {0, 1, 2, 3, 4, 5, 6, 7, 8, 9, 10, 11, 12, 13, 14, 15}"
    by simp presburger
  then show ?thesis
    by (elim insertE) (simp_all add: wire_mods_def SHIFT_def ALT_def CTRL_def SUPER_def)
qed

section \<open>The round trip\<close>

text \<open>
  C1 (as amended). Let \<open>e\<close> be an event that the decoder returns, on any payload and
  trailer, such that
  \<^item> its mods are between 0 and 15;
  \<^item> its key is not the character U+0001, unless it has mods, a shifted key, an alternate
    key or text;
  \<^item> neither its shifted key nor its alternate key is \<^verbatim>\<open>ENTER\<close>, unless the encoder ends
    its output for \<open>e\<close> with the trailer \<^verbatim>\<open>u\<close>.
  Then the encoder returns a string for \<open>e\<close>, and decoding that string, split as
  \<^verbatim>\<open>decode_key_event_as_window_system_key\<close> splits it (the payload is \<^verbatim>\<open>s[2:-1]\<close>, the
  trailer is \<^verbatim>\<open>s[-1]\<close>), returns \<open>e\<close>.
\<close>

theorem decode_encode_roundtrip:
  assumes d: "decode_key_event csi csi_type = Inr e"
    and m: "0 \<le> mods e" "mods e \<le> 15"
    and one: "key e = [1] \<longrightarrow>
        mods e \<noteq> 0 \<or> shifted_key e \<noteq> [] \<or> alternate_key e \<noteq> [] \<or> text_of e \<noteq> []"
    and enter: "shifted_key e = S ''ENTER'' \<or> alternate_key e = S ''ENTER'' \<longrightarrow>
        (\<exists>p. encode_key_event e = Inr (p @ S ''u''))"
  shows "\<exists>s. encode_key_event e = Inr s \<and>
           decode_key_event (drop 2 (butlast s)) [last s] = Inr e"
proof -
  from decode_key_eventD(1) [OF d] obtain kn sn an
    where kn: "key_name csi_type kn = Inr (key e)"
      and sn: "key_name csi_type sn = Inr (shifted_key e)"
      and an: "key_name csi_type an = Inr (alternate_key e)"
    by blast
  note tx = decode_key_eventD(2) [OF d]
  note bools = decode_key_eventD(3-6) [OF d]
  from key_facts [OF kn] obtain k T
    where k: "csi_number_for_name (key e) = Inr k"
      and T: "final_trailer (key e) k = [T]"
      and fi0: "0 \<le> first_int (key e) k"
      and fi1: "first_int (key e) k = 1 \<longrightarrow> key e = [1] \<or> py_in [T] (S ''ABCDHFPQRS'')"
      and dec: "\<And>fs. fs ! 0 = first_int (key e) k \<or> py_in [T] (S ''ABCDHFPQRS'') \<Longrightarrow>
                  bindE (effective_keynum [T] fs) (key_name [T]) = Inr (key e)"
    by blast
  from sub_facts [OF sn, of "[T]"] obtain sk
    where sk: "csi_number_for_name (shifted_key e) = Inr sk" and sk0: "0 \<le> sk"
      and skz: "sk = 0 \<longleftrightarrow> shifted_key e = []"
      and sk1: "shifted_key e \<noteq> S ''ENTER'' \<longrightarrow> key_name [T] sk = Inr (shifted_key e)"
      and sk2: "key_name (S ''u'') sk = Inr (shifted_key e)"
    by blast
  from sub_facts [OF an, of "[T]"] obtain ak
    where ak: "csi_number_for_name (alternate_key e) = Inr ak" and ak0: "0 \<le> ak"
      and akz: "ak = 0 \<longleftrightarrow> alternate_key e = []"
      and ak1: "alternate_key e \<noteq> S ''ENTER'' \<longrightarrow> key_name [T] ak = Inr (alternate_key e)"
      and ak2: "key_name (S ''u'') ak = Inr (alternate_key e)"
    by blast
  define P where "P = first_section_str (first_int (key e) k) sk ak (mods e \<noteq> 0 \<or> text_of e \<noteq> []) @
      rest_str (mods e) (mods e) (wire_action (type e)) (text_of e)"
  have wm: "wire_mods (shift e) (alt e) (ctrl e) (super e) = mods e"
    unfolding bools using m by (rule wire_mods_bits)
  have enc: "encode_key_event e = Inr (27 # 91 # P @ [T])"
    using encode_shape [OF k sk ak] by (simp add: wm T P_def)
  have u: "[T] = S ''u''" if "shifted_key e = S ''ENTER'' \<or> alternate_key e = S ''ENTER''"
  proof -
    from that enter obtain p where "encode_key_event e = Inr (p @ S ''u'')" by blast
    with enc have "27 # 91 # P @ [T] = p @ S ''u''" by simp
    then have "last (27 # 91 # P @ [T]) = last (p @ S ''u'')" by simp
    then show ?thesis by (simp add: S_simps)
  qed
  have SK: "key_name [T] sk = Inr (shifted_key e)"
    using sk1 sk2 u by (cases "shifted_key e = S ''ENTER''") auto
  have AK: "key_name [T] ak = Inr (alternate_key e)"
    using ak1 ak2 u by (cases "alternate_key e = S ''ENTER''") auto
  have K: "bindE (effective_keynum [T] fs) (key_name [T]) = Inr (key e)"
    if fs: "fs ! 0 = (if first_int (key e) k \<noteq> 1 \<or> (mods e \<noteq> 0 \<or> text_of e \<noteq> []) \<or> sk \<noteq> 0 \<or> ak \<noteq> 0
                     then first_int (key e) k else 0)" for fs
  proof (cases "first_int (key e) k \<noteq> 1 \<or> (mods e \<noteq> 0 \<or> text_of e \<noteq> []) \<or> sk \<noteq> 0 \<or> ak \<noteq> 0")
    case True
    with fs have "fs ! 0 = first_int (key e) k" by simp
    then show ?thesis by (intro dec) simp
  next
    case False
    then have "key e \<noteq> [1]" using one skz akz by auto
    with False fi1 have "py_in [T] (S ''ABCDHFPQRS'')" by auto
    then show ?thesis by (intro dec) simp
  qed
  have "decode_key_event P [T] =
    Inr \<lparr>type = type e, mods = mods e, key = key e, text_of = text_of e,
         shifted_key = shifted_key e, alternate_key = alternate_key e,
         shift = (mods e AND SHIFT \<noteq> 0), alt = (mods e AND ALT \<noteq> 0),
         ctrl = (mods e AND CTRL \<noteq> 0), super = (mods e AND SUPER \<noteq> 0)\<rparr>"
    unfolding P_def using fi0 sk0 ak0 m(1) tx K SK AK by (rule decode_encoded)
  also have "\<lparr>type = type e, mods = mods e, key = key e, text_of = text_of e,
         shifted_key = shifted_key e, alternate_key = alternate_key e,
         shift = (mods e AND SHIFT \<noteq> 0), alt = (mods e AND ALT \<noteq> 0),
         ctrl = (mods e AND CTRL \<noteq> 0), super = (mods e AND SUPER \<noteq> 0)\<rparr> = e"
    using bools by simp
  finally have "decode_key_event P [T] = Inr e" .
  moreover have "drop 2 (butlast (27 # 91 # P @ [T])) = P" "last (27 # 91 # P @ [T]) = T"
    by (simp_all add: butlast_append)
  ultimately show ?thesis using enc by simp
qed

theorem decode_encode_roundtrip_witness:
  "decode_key_event (S ''97:57345;6:2;97'') (S ''u'') =
     Inr \<lparr>type = REPEAT, mods = 5, key = S ''a'', text_of = S ''a'', shifted_key = S ''ENTER'',
          alternate_key = [], shift = True, alt = False, ctrl = True, super = False\<rparr> \<and>
   encode_key_event
     \<lparr>type = REPEAT, mods = 5, key = S ''a'', text_of = S ''a'', shifted_key = S ''ENTER'',
      alternate_key = [], shift = True, alt = False, ctrl = True, super = False\<rparr>
     = Inr (27 # S ''[97:13;6:2;97'' @ S ''u'') \<and>
   decode_key_event (drop 2 (butlast (27 # S ''[97:13;6:2;97'' @ S ''u'')))
       [last (27 # S ''[97:13;6:2;97'' @ S ''u'')] =
     Inr \<lparr>type = REPEAT, mods = 5, key = S ''a'', text_of = S ''a'', shifted_key = S ''ENTER'',
          alternate_key = [], shift = True, alt = False, ctrl = True, super = False\<rparr>"
proof -
  define e where "e = \<lparr>type = REPEAT, mods = 5, key = S ''a'', text_of = S ''a'',
    shifted_key = S ''ENTER'', alternate_key = [], shift = True, alt = False, ctrl = True,
    super = False\<rparr>"
  have d: "decode_key_event (S ''97:57345;6:2;97'') (S ''u'') = Inr e"
    by (simp add: e_def S_simps decode_defs int_defs table_defs)
  have enc: "encode_key_event e = Inr (27 # S ''[97:13;6:2;97'' @ S ''u'')"
    by (simp add: e_def S_simps encode_defs table_defs py_str_def digits.simps [of 97]
        digits.simps [of 13] digits_small)
  have 1: "0 \<le> mods e" and 2: "mods e \<le> 15"
    by (simp_all add: e_def)
  have 3: "key e = [1] \<longrightarrow>
      mods e \<noteq> 0 \<or> shifted_key e \<noteq> [] \<or> alternate_key e \<noteq> [] \<or> text_of e \<noteq> []"
    by (simp add: e_def)
  have 4: "shifted_key e = S ''ENTER'' \<or> alternate_key e = S ''ENTER'' \<longrightarrow>
      (\<exists>p. encode_key_event e = Inr (p @ S ''u''))"
    by (intro impI exI [of _ "27 # S ''[97:13;6:2;97''"]) (simp add: enc)
  from decode_encode_roundtrip [OF d 1 2 3 4] enc
  have "decode_key_event (drop 2 (butlast (27 # S ''[97:13;6:2;97'' @ S ''u'')))
       [last (27 # S ''[97:13;6:2;97'' @ S ''u'')] = Inr e"
    by auto
  with d enc show ?thesis by (simp only: e_def)
qed

text \<open>
  C1 as stated fails: the decoder keeps mods 16, which none of the four booleans shows; the
  encoder writes no modifier field for it, and decoding the output gives mods 0.
\<close>

theorem decode_encode_roundtrip_counterexample:
  "decode_key_event (S ''97;17'') (S ''u'') = Inr (KeyEvent0\<lparr>key := S ''a'', mods := 16\<rparr>) \<and>
   encode_key_event (KeyEvent0\<lparr>key := S ''a'', mods := 16\<rparr>) = Inr (27 # S ''[97u'') \<and>
   decode_key_event (drop 2 (butlast (27 # S ''[97u''))) [last (27 # S ''[97u'')]
     \<noteq> Inr (KeyEvent0\<lparr>key := S ''a'', mods := 16\<rparr>)"
  by (simp add: S_simps decode_defs encode_defs int_defs table_defs KeyEvent0_def py_str_def
      digits.simps [of 97] digits_small)

text \<open>The other two conditions are needed as well: the key U+0001 alone is encoded with an
  empty payload, and the number 13 of a shifted \<^verbatim>\<open>ENTER\<close> reads as \<^verbatim>\<open>F3\<close> under the
  trailer \<^verbatim>\<open>~\<close>.\<close>

lemma roundtrip_fails_key_1:
  "decode_key_event (S ''1'') (S ''u'') = Inr (KeyEvent0\<lparr>key := [1]\<rparr>) \<and>
   encode_key_event (KeyEvent0\<lparr>key := [1]\<rparr>) = Inr (27 # S ''[u'') \<and>
   decode_key_event (drop 2 (butlast (27 # S ''[u''))) [last (27 # S ''[u'')]
     = Inr KeyEvent0"
  by (simp add: S_simps decode_defs encode_defs int_defs table_defs KeyEvent0_def)

lemma roundtrip_fails_shifted_enter:
  "decode_key_event (S ''2:57345'') (S ''~'')
     = Inr (KeyEvent0\<lparr>key := S ''INSERT'', shifted_key := S ''ENTER''\<rparr>) \<and>
   encode_key_event (KeyEvent0\<lparr>key := S ''INSERT'', shifted_key := S ''ENTER''\<rparr>)
     = Inr (27 # S ''[2:13~'') \<and>
   decode_key_event (drop 2 (butlast (27 # S ''[2:13~''))) [last (27 # S ''[2:13~'')]
     = Inr (KeyEvent0\<lparr>key := S ''INSERT'', shifted_key := S ''F3''\<rparr>)"
  by (simp add: S_simps decode_defs encode_defs int_defs table_defs KeyEvent0_def py_str_def
      digits.simps [of 13] digits_small)

section \<open>The encoder on F1\<close>

text \<open>
  C2 (as amended). An event with key \<^verbatim>\<open>F1\<close>, type PRESS, no mods, no text and neither a
  shifted nor an alternate key is encoded as exactly \<^verbatim>\<open>ESC [ P\<close>: the letter trailer
  \<^verbatim>\<open>P\<close> is selected and the key number, forced to 1, is left out, since the guard
  \<^verbatim>\<open>key != 1 or mods or shifted_key or alternate_key or text\<close> fails.
\<close>

theorem encode_F1:
  assumes "key e = S ''F1''" and "type e = PRESS" and "mods e = 0" and "text_of e = []"
    and "shifted_key e = []" and "alternate_key e = []"
  shows "encode_key_event e = Inr (27 # S ''[P'')"
  using assms by (simp add: S_simps encode_defs table_defs)

theorem encode_F1_witness:
  "encode_key_event (KeyEvent0\<lparr>key := S ''F1''\<rparr>) = Inr (27 # S ''[P'')"
  by (rule encode_F1) (simp_all add: KeyEvent0_def)

text \<open>The bytes \<^verbatim>\<open>ESC [ 1 P\<close> that C2 states are not what the encoder returns.\<close>

theorem encode_F1_counterexample:
  "encode_key_event (KeyEvent0\<lparr>key := S ''F1''\<rparr>) \<noteq> Inr (27 # S ''[1P'')"
  by (simp add: S_simps encode_defs table_defs KeyEvent0_def)

text \<open>With a modifier the forced 1 is emitted.\<close>

lemma encode_F1_shift:
  "encode_key_event (KeyEvent0\<lparr>key := S ''F1'', mods := SHIFT, shift := True\<rparr>)
     = Inr (27 # S ''[1;2P'')"
  by (simp add: S_simps encode_defs table_defs KeyEvent0_def SHIFT_def py_str_def digits_small)

section \<open>The text section of the decoder\<close>

text \<open>
  C3 (as amended). The third section of the payload \<^verbatim>\<open>97;;:65\<close> is \<^verbatim>\<open>:65\<close>, which has two
  sub-fields, an empty one (read as 0) and 65: the decoded text is the two characters
  U+0000 and \<^verbatim>\<open>A\<close>, the other fields being as C3 states them. The payload \<^verbatim>\<open>97;;65\<close>
  is the one that gives the text \<^verbatim>\<open>A\<close>.
\<close>

theorem decode_text_section:
  "decode_key_event (S ''97;;:65'') (S ''u'')
     = Inr (KeyEvent0\<lparr>key := S ''a'', text_of := [0, 65]\<rparr>) \<and>
   decode_key_event (S ''97;;65'') (S ''u'')
     = Inr (KeyEvent0\<lparr>key := S ''a'', text_of := S ''A''\<rparr>)"
  by (simp add: S_simps decode_defs int_defs table_defs KeyEvent0_def)

theorem decode_text_section_counterexample:
  "decode_key_event (S ''97;;:65'') (S ''u'')
     \<noteq> Inr (KeyEvent0\<lparr>key := S ''a'', text_of := S ''A''\<rparr>)"
  by (simp add: S_simps decode_defs int_defs table_defs KeyEvent0_def)

section \<open>Key number 13\<close>

text \<open>
  C4. Whenever the key number the decoder resolves is 13, the key of the decoded event is
  \<^verbatim>\<open>ENTER\<close> if the trailer is \<^verbatim>\<open>u\<close> and \<^verbatim>\<open>F3\<close> for every other trailer; the payload
  \<^verbatim>\<open>13\<close> decodes to \<^verbatim>\<open>ENTER\<close> with trailer \<^verbatim>\<open>u\<close> and to \<^verbatim>\<open>F3\<close> with trailer \<^verbatim>\<open>~\<close>.
\<close>

theorem decode_keynum_13:
  "(decode_key_event csi csi_type = Inr e \<longrightarrow>
    get_sub_sections (split_str 59 csi ! 0) 0 = Inr first_section \<longrightarrow>
    effective_keynum csi_type first_section = Inr 13 \<longrightarrow>
    key e = (if csi_type = S ''u'' then S ''ENTER'' else S ''F3'')) \<and>
   decode_key_event (S ''13'') (S ''u'') = Inr (KeyEvent0\<lparr>key := S ''ENTER''\<rparr>) \<and>
   decode_key_event (S ''13'') (S ''~'') = Inr (KeyEvent0\<lparr>key := S ''F3''\<rparr>)"
proof (intro conjI impI)
  assume "decode_key_event csi csi_type = Inr e"
    and "get_sub_sections (split_str 59 csi ! 0) 0 = Inr first_section"
    and "effective_keynum csi_type first_section = Inr 13"
  then show "key e = (if csi_type = S ''u'' then S ''ENTER'' else S ''F3'')"
    apply (simp add: decode_key_event_def Let_def)
    apply (simp add: bindE_def split: sum.splits)
    apply (auto simp add: key_name_def)
    done
next
  show "decode_key_event (S ''13'') (S ''u'') = Inr (KeyEvent0\<lparr>key := S ''ENTER''\<rparr>)"
    by (simp add: S_simps decode_defs int_defs table_defs KeyEvent0_def)
next
  show "decode_key_event (S ''13'') (S ''~'') = Inr (KeyEvent0\<lparr>key := S ''F3''\<rparr>)"
    by (simp add: S_simps decode_defs int_defs table_defs KeyEvent0_def)
qed

theorem decode_keynum_13_witness:
  "decode_key_event (S ''1;5'') (S ''R'') = Inr (KeyEvent0\<lparr>key := S ''F3'', mods := 4, ctrl := True\<rparr>) \<and>
   get_sub_sections (split_str 59 (S ''1;5'') ! 0) 0 = Inr [1] \<and>
   effective_keynum (S ''R'') [1] = Inr 13 \<and>
   key (KeyEvent0\<lparr>key := S ''F3'', mods := 4, ctrl := True\<rparr>) = S ''F3''"
proof -
  have d: "decode_key_event (S ''1;5'') (S ''R'')
      = Inr (KeyEvent0\<lparr>key := S ''F3'', mods := 4, ctrl := True\<rparr>)"
    by (simp add: S_simps decode_defs int_defs table_defs KeyEvent0_def)
  have f: "get_sub_sections (split_str 59 (S ''1;5'') ! 0) 0 = Inr [1]"
    by (simp add: S_simps get_sub_sections_def bindE_def int_defs)
  have k: "effective_keynum (S ''R'') [1] = Inr 13"
    by (simp add: S_simps effective_keynum_def table_defs)
  from decode_keynum_13 [of "S ''1;5''" "S ''R''" _ "[1]"] d f k
  have "key (KeyEvent0\<lparr>key := S ''F3'', mods := 4, ctrl := True\<rparr>)
      = (if S ''R'' = S ''u'' then S ''ENTER'' else S ''F3'')"
    by blast
  with d f k show ?thesis by (simp add: S_simps)
qed

section \<open>The trailer of the keys in \<^verbatim>\<open>tilde_trailers\<close>\<close>

lemma csi_number_total:
  assumes "is_key_name n"
  shows "\<exists>c. csi_number_for_name n = Inr c"
proof (cases "n = [] \<or> map_of get_name_to_functional_number_map n \<noteq> None")
  case True
  then show ?thesis by (auto simp add: csi_number_for_name_def)
next
  case False
  with assms have "length n = 1" by (simp add: is_key_name_def)
  then obtain ch where "n = [ch]" by (cases n) auto
  then show ?thesis by (simp add: csi_number_for_name_def n2f_single py_ord_def)
qed

text \<open>
  C5. For every event whose key is a functional name with its number in
  \<^verbatim>\<open>tilde_trailers\<close>, the encoder returns a string that ends with the trailer \<^verbatim>\<open>~\<close>,
  whatever the mods, the booleans, the type and the text are, and whatever key names the
  shifted and the alternate key are (empty, one character, or a functional name). For any
  other shifted or alternate key \<^verbatim>\<open>ord\<close> raises; so, with no condition on them: whenever
  the encoder returns a string for such an event, the string ends with \<^verbatim>\<open>~\<close>. The event
  with key \<^verbatim>\<open>INSERT\<close>, mods CTRL and \<^verbatim>\<open>ctrl\<close> true is encoded as \<^verbatim>\<open>ESC [ 2 ; 5 ~\<close>.
\<close>

theorem tilde_precedence:
  "(map_of get_name_to_functional_number_map (key e) = Some fn \<longrightarrow>
      fn \<in> set tilde_trailers \<longrightarrow>
      is_key_name (shifted_key e) \<longrightarrow> is_key_name (alternate_key e) \<longrightarrow>
      (\<exists>payload. encode_key_event e = Inr (27 # 91 # payload @ S ''~''))) \<and>
   (map_of get_name_to_functional_number_map (key e) = Some fn \<longrightarrow>
      fn \<in> set tilde_trailers \<longrightarrow>
      encode_key_event e = Inr s \<longrightarrow>
      (\<exists>payload. s = 27 # 91 # payload @ S ''~'')) \<and>
   encode_key_event (KeyEvent0\<lparr>key := S ''INSERT'', mods := CTRL, ctrl := True\<rparr>)
     = Inr (27 # S ''[2;5~'')"
proof (intro conjI impI)
  assume fn: "map_of get_name_to_functional_number_map (key e) = Some fn"
    and t: "fn \<in> set tilde_trailers"
    and "is_key_name (shifted_key e)" and "is_key_name (alternate_key e)"
  then obtain sk ak where sk: "csi_number_for_name (shifted_key e) = Inr sk"
    and ak: "csi_number_for_name (alternate_key e) = Inr ak"
    using csi_number_total by blast
  have "key e \<noteq> []" using fn n2f_empty by auto
  with fn have k: "csi_number_for_name (key e) = Inr (dict_get get_functional_to_csi_number_map fn fn)"
    by (simp add: csi_number_for_name_def)
  have "final_trailer (key e) (dict_get get_functional_to_csi_number_map fn fn) = S ''~''"
    using fn t by (simp add: final_trailer_def)
  with encode_shape [OF k sk ak]
  show "\<exists>payload. encode_key_event e = Inr (27 # 91 # payload @ S ''~'')"
    by (metis append.assoc)
next
  assume fn: "map_of get_name_to_functional_number_map (key e) = Some fn"
    and t: "fn \<in> set tilde_trailers"
    and s: "encode_key_event e = Inr s"
  from s obtain k sk ak where k: "csi_number_for_name (key e) = Inr k"
    and sk: "csi_number_for_name (shifted_key e) = Inr sk"
    and ak: "csi_number_for_name (alternate_key e) = Inr ak"
    unfolding encode_key_event_def by (blast dest: bindE_InrD)
  have "final_trailer (key e) k = S ''~''"
    using fn t by (simp add: final_trailer_def)
  with encode_shape [OF k sk ak] s
  show "\<exists>payload. s = 27 # 91 # payload @ S ''~''"
    by (metis append.assoc sum.inject(2))
next
  show "encode_key_event (KeyEvent0\<lparr>key := S ''INSERT'', mods := CTRL, ctrl := True\<rparr>)
     = Inr (27 # S ''[2;5~'')"
    by (simp add: S_simps encode_defs table_defs KeyEvent0_def CTRL_def py_str_def digits_small)
qed

theorem tilde_precedence_witness:
  "map_of get_name_to_functional_number_map
     (key (KeyEvent0\<lparr>key := S ''F5'', type := RELEASE, text_of := S ''x'', shifted_key := S ''UP'',
        alternate_key := S ''b''\<rparr>)) = Some 57368 \<and>
   57368 \<in> set tilde_trailers \<and>
   is_key_name (S ''UP'') \<and> is_key_name (S ''b'') \<and>
   (\<exists>payload. encode_key_event (KeyEvent0\<lparr>key := S ''F5'', type := RELEASE,
       text_of := S ''x'', shifted_key := S ''UP'', alternate_key := S ''b''\<rparr>)
     = Inr (27 # 91 # payload @ S ''~'')) \<and>
   encode_key_event (KeyEvent0\<lparr>key := S ''F5'', type := RELEASE, text_of := S ''x'',
       shifted_key := S ''UP'', alternate_key := S ''b''\<rparr>)
     = Inr (27 # 91 # S ''15:57352:98;1:3;120'' @ S ''~'')"
proof -
  define e where "e = KeyEvent0\<lparr>key := S ''F5'', type := RELEASE, text_of := S ''x'',
       shifted_key := S ''UP'', alternate_key := S ''b''\<rparr>"
  have 1: "map_of get_name_to_functional_number_map (key e) = Some 57368"
    by (simp add: e_def KeyEvent0_def lookups S_facts del: map_of.simps cong: map_of_key_cong)
  have 2: "57368 \<in> set tilde_trailers" by (simp add: tilde_trailers_def)
  have 3: "is_key_name (shifted_key e)"
    by (simp add: e_def KeyEvent0_def is_key_name_def lookups S_facts
        del: map_of.simps cong: map_of_key_cong)
  have 4: "is_key_name (alternate_key e)"
    by (simp add: e_def KeyEvent0_def is_key_name_def S_simps)
  from tilde_precedence [of e 57368 "[]"] 1 2 3 4
  have p: "\<exists>payload. encode_key_event e = Inr (27 # 91 # payload @ S ''~'')"
    by blast
  have enc: "encode_key_event e = Inr (27 # 91 # S ''15:57352:98;1:3;120'' @ S ''~'')"
    by (simp add: e_def S_simps encode_defs table_defs KeyEvent0_def py_str_def
        digits.simps [of 15] digits.simps [of 57352] digits.simps [of 5735] digits.simps [of 573]
        digits.simps [of 57] digits.simps [of 98] digits.simps [of 120] digits.simps [of 12]
        digits_small)
  from 1 2 3 4 p enc show ?thesis
    unfolding e_def by (simp add: KeyEvent0_def)
qed

section \<open>Matching a shifted key\<close>

lemma parse_hash:
  assumes "functional_key_name_aliases X (S ''#'') = None"
    and "character_key_name_aliases X (S ''#'') = None"
  shows "parse_shortcut X (S ''#'') = \<lparr>parsed_mods = 0, parsed_key_name = S ''#''\<rparr>"
  using assms by (simp add: S_simps parse_defs Let_def table_defs)

lemma parse_shift_3: "parsed_mods (parse_shortcut X (S ''shift+3'')) = 1"
  by (simp add: S_simps parse_defs Let_def)

text \<open>
  C6. A PRESS event with \<^verbatim>\<open>shift\<close> true, shifted key \<^verbatim>\<open>#\<close>, key \<^verbatim>\<open>3\<close> and mods SHIFT
  matches the shortcut \<^verbatim>\<open>#\<close> and does not match \<^verbatim>\<open>shift+3\<close> (with the default types).
  The alias dicts are those of \<^verbatim>\<open>kitty.key_names\<close>; they are assumed to have no entry
  for \<^verbatim>\<open>#\<close>.
\<close>

theorem matches_shifted_key:
  assumes "type e = PRESS" and "shift e" and "shifted_key e = S ''#''" and "key e = S ''3''"
    and "mods e = SHIFT"
    and "functional_key_name_aliases X (S ''#'') = None"
    and "character_key_name_aliases X (S ''#'') = None"
  shows "matches X e (Str (S ''#'')) default_types \<and>
         \<not> matches X e (Str (S ''shift+3'')) default_types"
  using assms
  by (simp add: matches_def default_types_def parse_hash parse_shift_3 SHIFT_def)
    (simp add: S_simps)

theorem matches_shifted_key_witness:
  "matches no_aliases
     (KeyEvent0\<lparr>key := S ''3'', shifted_key := S ''#'', mods := SHIFT, shift := True\<rparr>)
     (Str (S ''#'')) default_types \<and>
   \<not> matches no_aliases
     (KeyEvent0\<lparr>key := S ''3'', shifted_key := S ''#'', mods := SHIFT, shift := True\<rparr>)
     (Str (S ''shift+3'')) default_types"
  by (rule matches_shifted_key) (simp_all add: KeyEvent0_def no_aliases_def)

section \<open>A final plus sign in a shortcut\<close>

lemma shortcut_parts_plus:
  assumes "endswith spec (S ''+'')"
  shows "shortcut_parts (butlast spec @ S ''plus'') = shortcut_parts spec"
proof -
  have "\<not> endswith (butlast spec @ S ''plus'') (S ''+'')"
    by (simp add: endswith_def S_simps)
  then show ?thesis using assms by (simp add: shortcut_parts_def)
qed

text \<open>
  C7. A shortcut string that ends with \<^verbatim>\<open>+\<close> parses as the string with that last
  \<^verbatim>\<open>+\<close> replaced by \<^verbatim>\<open>plus\<close>; so \<^verbatim>\<open>ctrl++\<close> parses as \<^verbatim>\<open>ctrl+plus\<close> does, with mods CTRL.
\<close>

theorem parse_shortcut_trailing_plus:
  "(endswith spec (S ''+'') \<longrightarrow>
      parse_shortcut X spec = parse_shortcut X (butlast spec @ S ''plus'')) \<and>
   parse_shortcut X (S ''ctrl++'') = parse_shortcut X (S ''ctrl+plus'') \<and>
   parsed_mods (parse_shortcut X (S ''ctrl++'')) = CTRL"
proof (intro conjI impI)
  assume "endswith spec (S ''+'')"
  then show "parse_shortcut X spec = parse_shortcut X (butlast spec @ S ''plus'')"
    by (simp only: parse_shortcut_def shortcut_parts_plus)
next
  show "parse_shortcut X (S ''ctrl++'') = parse_shortcut X (S ''ctrl+plus'')"
    by (simp add: S_simps parse_defs Let_def)
next
  show "parsed_mods (parse_shortcut X (S ''ctrl++'')) = CTRL"
    by (simp add: S_simps parse_defs Let_def)
qed

theorem parse_shortcut_trailing_plus_witness:
  "endswith (S ''shift++'') (S ''+'') \<and>
   parse_shortcut no_aliases (S ''shift++'') = parse_shortcut no_aliases (S ''shift+plus'') \<and>
   parse_shortcut no_aliases (S ''shift++'') = \<lparr>parsed_mods = 1, parsed_key_name = S ''plus''\<rparr>"
proof -
  have e: "endswith (S ''shift++'') (S ''+'')"
    by (simp add: endswith_def S_simps)
  have "parse_shortcut no_aliases (S ''shift++'')
      = parse_shortcut no_aliases (butlast (S ''shift++'') @ S ''plus'')"
    using parse_shortcut_trailing_plus [of "S ''shift++''" no_aliases] e by blast
  moreover have "parse_shortcut no_aliases (S ''shift++'')
      = \<lparr>parsed_mods = 1, parsed_key_name = S ''plus''\<rparr>"
    by (simp add: S_simps parse_defs Let_def no_aliases_def table_defs)
  ultimately show ?thesis using e by (simp add: S_simps)
qed

section \<open>Decoding for the window system\<close>

lemma as_num_total:
  assumes "key_name t num = Inr n"
  shows "\<exists>v. as_num n = Inr v"
  using key_name_cases [OF assms]
proof (elim disjE exE conjE)
  assume "n = []"
  then show ?thesis by (simp add: as_num_def)
next
  fix fn assume "(fn, n) \<in> set functional_key_number_to_name_map"
  from functional_name_basic(3,8) [OF this] show ?thesis
    by (simp add: as_num_def)
next
  fix ch assume "n = [ch]"
  then show ?thesis by (simp add: as_num_def n2f_single py_ord_def)
qed

lemma as_window_system_event_total:
  assumes "decode_key_event csi csi_type = Inr k"
  shows "\<exists>w. as_window_system_event D k = Inr w"
proof -
  from decode_key_eventD(1) [OF assms] obtain kn sn an
    where kn: "key_name csi_type kn = Inr (key k)"
      and sn: "key_name csi_type sn = Inr (shifted_key k)"
      and an: "key_name csi_type an = Inr (alternate_key k)"
    by blast
  from as_num_total [OF kn] as_num_total [OF sn] as_num_total [OF an]
  obtain a b c where "as_num (key k) = Inr a" "as_num (shifted_key k) = Inr b"
    "as_num (alternate_key k) = Inr c"
    by blast
  then show ?thesis
    by (simp add: as_window_system_event_def Let_def bindE_def)
qed

text \<open>
  C8 (as amended). On every non-empty string \<^verbatim>\<open>decode_key_event_as_window_system_key\<close>
  returns: \<^verbatim>\<open>None\<close> exactly when the decoder raises on the payload \<^verbatim>\<open>text[2:-1]\<close> and the
  trailer \<^verbatim>\<open>text[-1]\<close> (as for a sub-field that is not a number, or an action that is not
  1, 2 or 3), and the converted event otherwise. The first two characters are not looked
  at, so a string too short to hold \<^verbatim>\<open>ESC [\<close> and a trailer is decoded with an empty
  payload: \<^verbatim>\<open>A\<close> gives the event of the key \<^verbatim>\<open>UP\<close>.
\<close>

theorem bridge_returns:
  "(text \<noteq> [] \<longrightarrow>
      (\<exists>r. decode_key_event_as_window_system_key D text = Inr r \<and>
           (r = None \<longleftrightarrow> (\<exists>err. decode_key_event (drop 2 (butlast text)) [last text] = Inl err)))) \<and>
   decode_key_event_as_window_system_key D (27 # S ''[x7u'') = Inr None \<and>
   decode_key_event_as_window_system_key D (27 # S ''[97;1:4u'') = Inr None \<and>
   decode_key_event_as_window_system_key D (S ''A'') =
     Inr (Some \<lparr>ws_key = 57352, ws_shifted_key = 0, ws_alternate_key = 0, ws_mods = 0,
                ws_action = GLFW_PRESS D, ws_text = []\<rparr>)"
proof (intro conjI impI)
  assume ne: "text \<noteq> []"
  show "\<exists>r. decode_key_event_as_window_system_key D text = Inr r \<and>
      (r = None \<longleftrightarrow> (\<exists>err. decode_key_event (drop 2 (butlast text)) [last text] = Inl err))"
  proof (cases "decode_key_event (drop 2 (butlast text)) [last text]")
    case (Inl err)
    with ne show ?thesis
      by (simp add: decode_key_event_as_window_system_key_def)
  next
    case (Inr k)
    then obtain w where "as_window_system_event D k = Inr w"
      using as_window_system_event_total by blast
    with Inr ne show ?thesis
      by (simp add: decode_key_event_as_window_system_key_def bindE_def)
  qed
next
  show "decode_key_event_as_window_system_key D (27 # S ''[x7u'') = Inr None"
    by (simp add: decode_key_event_as_window_system_key_def S_simps decode_defs int_defs)
next
  show "decode_key_event_as_window_system_key D (27 # S ''[97;1:4u'') = Inr None"
    by (simp add: decode_key_event_as_window_system_key_def S_simps decode_defs int_defs
        table_defs)
next
  show "decode_key_event_as_window_system_key D (S ''A'') =
     Inr (Some \<lparr>ws_key = 57352, ws_shifted_key = 0, ws_alternate_key = 0, ws_mods = 0,
                ws_action = GLFW_PRESS D, ws_text = []\<rparr>)"
    by (simp add: decode_key_event_as_window_system_key_def S_simps decode_defs int_defs
        table_defs as_window_system_event_def as_num_def Let_def)
qed

theorem bridge_returns_witness:
  "27 # S ''[97;2:3u'' \<noteq> [] \<and>
   decode_key_event_as_window_system_key glfw (27 # S ''[97;2:3u'') =
     Inr (Some \<lparr>ws_key = 97, ws_shifted_key = 0, ws_alternate_key = 0, ws_mods = 1,
                ws_action = 0, ws_text = []\<rparr>) \<and>
   (\<exists>r. decode_key_event_as_window_system_key glfw (27 # S ''[97;2:3u'') = Inr r \<and>
      (r = None \<longleftrightarrow> (\<exists>err. decode_key_event (drop 2 (butlast (27 # S ''[97;2:3u'')))
          [last (27 # S ''[97;2:3u'')] = Inl err)))"
proof -
  have 1: "27 # S ''[97;2:3u'' \<noteq> []" by simp
  have 2: "decode_key_event_as_window_system_key glfw (27 # S ''[97;2:3u'') =
     Inr (Some \<lparr>ws_key = 97, ws_shifted_key = 0, ws_alternate_key = 0, ws_mods = 1,
                ws_action = 0, ws_text = []\<rparr>)"
    by (simp add: decode_key_event_as_window_system_key_def S_simps decode_defs int_defs
        table_defs as_window_system_event_def as_num_def Let_def glfw_def py_ord_def)
  from bridge_returns [of "27 # S ''[97;2:3u''" glfw] 1
  have 3: "\<exists>r. decode_key_event_as_window_system_key glfw (27 # S ''[97;2:3u'') = Inr r \<and>
      (r = None \<longleftrightarrow> (\<exists>err. decode_key_event (drop 2 (butlast (27 # S ''[97;2:3u'')))
          [last (27 # S ''[97;2:3u'')] = Inl err))"
    by blast
  from 1 2 3 show ?thesis by blast
qed

text \<open>
  C8 as stated fails: on the empty string \<^verbatim>\<open>text[-1]\<close>, which stands before the \<^verbatim>\<open>try\<close>,
  raises IndexError; and a string of one character is not answered with \<^verbatim>\<open>None\<close>.
\<close>

theorem bridge_returns_counterexample:
  "decode_key_event_as_window_system_key glfw [] = Inl IndexError \<and>
   decode_key_event_as_window_system_key glfw (S ''A'') =
     Inr (Some \<lparr>ws_key = 57352, ws_shifted_key = 0, ws_alternate_key = 0, ws_mods = 0,
                ws_action = 1, ws_text = []\<rparr>)"
  by (simp add: decode_key_event_as_window_system_key_def S_simps decode_defs int_defs
        table_defs as_window_system_event_def as_num_def Let_def glfw_def)

section \<open>Unknown modifiers\<close>

lemma and_or_keep: "(a::int) AND v = v \<Longrightarrow> (a OR x) AND v = v"
  by (metis and.assoc bit.conj_zero_right bit.disj_conj_distrib2 or.commute or.right_neutral)

lemma foldl_or_keep: "(a::int) AND v = v \<Longrightarrow> foldl (OR) a xs AND v = v"
  by (induction xs arbitrary: a) (simp_all add: and_or_keep)

lemma foldl_or_member: "v \<in> set xs \<Longrightarrow> foldl (OR) (a::int) xs AND v = v"
proof (induction xs arbitrary: a)
  case Nil
  then show ?case by simp
next
  case (Cons x xs)
  show ?case
  proof (cases "v = x")
    case True
    have "(x OR a) AND x = x" by (rule and_or_keep) simp
    then have "(a OR x) AND x = x" by (simp add: or.commute)
    then show ?thesis using True by (simp add: foldl_or_keep)
  next
    case False
    with Cons show ?thesis by simp
  qed
qed

lemma unknown_modifier_bit:
  assumes "x \<in> set (butlast (shortcut_parts spec))"
    and "map_of config_mod_map (py_upper (unicode_upper X) x) = None"
  shows "parsed_mods (parse_shortcut X spec) AND push_bit 8 SUPER = push_bit 8 SUPER"
proof -
  have len: "1 < length (shortcut_parts spec)"
    using assms(1) by (cases "shortcut_parts spec" rule: rev_cases) (auto simp: Suc_lessI)
  have "push_bit 8 SUPER \<in> set (map (\<lambda>x. dict_get config_mod_map (py_upper (unicode_upper X) x) (push_bit 8 SUPER))
     (butlast (shortcut_parts spec)))"
    using assms by (force simp add: dict_get_def)
  then show ?thesis using len
    by (simp add: parse_shortcut_def Let_def foldl_or_member)
qed

text \<open>
  C9 (as amended). If one of the modifier tokens of a shortcut string is not a key of
  \<^verbatim>\<open>config_mod_map\<close>, the parsed mods have the bit \<^verbatim>\<open>SUPER << 8\<close> set, and no event whose
  mods lack that bit matches the string, whatever the types asked for.
\<close>

theorem unknown_modifier_never_matches:
  assumes "x \<in> set (butlast (shortcut_parts spec))"
    and "map_of config_mod_map (py_upper (unicode_upper X) x) = None"
  shows "parsed_mods (parse_shortcut X spec) AND push_bit 8 SUPER = push_bit 8 SUPER \<and>
         (mods e AND push_bit 8 SUPER = 0 \<longrightarrow> \<not> matches X e (Str spec) types)"
proof (intro conjI impI)
  show b: "parsed_mods (parse_shortcut X spec) AND push_bit 8 SUPER = push_bit 8 SUPER"
    using assms by (rule unknown_modifier_bit)
  assume m: "mods e AND push_bit 8 SUPER = 0"
  have ne: "push_bit 8 SUPER \<noteq> (0::int)" by (simp add: SUPER_def)
  have "mods e \<noteq> parsed_mods (parse_shortcut X spec)"
    using b m ne by auto
  moreover have "mods e AND NOT SHIFT \<noteq> parsed_mods (parse_shortcut X spec)"
  proof
    assume "mods e AND NOT SHIFT = parsed_mods (parse_shortcut X spec)"
    then have "(mods e AND NOT SHIFT) AND push_bit 8 SUPER = push_bit 8 SUPER"
      using b by simp
    moreover have "(mods e AND NOT SHIFT) AND push_bit 8 SUPER = (mods e AND push_bit 8 SUPER) AND NOT SHIFT"
      by (simp add: and.assoc and.left_commute and.commute)
    ultimately show False using m ne by simp
  qed
  ultimately show "\<not> matches X e (Str spec) types"
    by (simp add: matches_def Let_def)
qed

theorem unknown_modifier_never_matches_witness:
  "S ''foo'' \<in> set (butlast (shortcut_parts (S ''foo+a''))) \<and>
   map_of config_mod_map (py_upper (unicode_upper no_aliases) (S ''foo'')) = None \<and>
   parsed_mods (parse_shortcut no_aliases (S ''foo+a'')) AND push_bit 8 SUPER = push_bit 8 SUPER \<and>
   mods (KeyEvent0\<lparr>key := S ''a'', mods := 15\<rparr>) AND push_bit 8 SUPER = 0 \<and>
   \<not> matches no_aliases (KeyEvent0\<lparr>key := S ''a'', mods := 15\<rparr>) (Str (S ''foo+a'')) default_types"
proof -
  have 1: "S ''foo'' \<in> set (butlast (shortcut_parts (S ''foo+a'')))"
    by (simp add: S_simps shortcut_parts_def endswith_def)
  have 2: "map_of config_mod_map (py_upper (unicode_upper no_aliases) (S ''foo'')) = None"
    by (simp add: S_simps py_upper_def config_mod_map_def)
  have 3: "mods (KeyEvent0\<lparr>key := S ''a'', mods := 15\<rparr>) AND push_bit 8 SUPER = 0"
    by (simp add: SUPER_def)
  from unknown_modifier_never_matches [OF 1 2, of "KeyEvent0\<lparr>key := S ''a'', mods := 15\<rparr>" default_types] 1 2 3
  show ?thesis by blast
qed

text \<open>
  The decoder does not mask the mods it reads (see C10), so an event decoded from the wire
  can carry the bit \<^verbatim>\<open>SUPER << 8\<close>, and such an event matches a shortcut with an unknown
  modifier.
\<close>

theorem unknown_modifier_counterexample:
  "decode_key_event (S ''97;2049'') (S ''u'') = Inr (KeyEvent0\<lparr>key := S ''a'', mods := 2048\<rparr>) \<and>
   S ''foo'' \<in> set (butlast (shortcut_parts (S ''foo+a''))) \<and>
   map_of config_mod_map (py_upper (unicode_upper no_aliases) (S ''foo'')) = None \<and>
   matches no_aliases (KeyEvent0\<lparr>key := S ''a'', mods := 2048\<rparr>) (Str (S ''foo+a'')) default_types"
proof (intro conjI)
  show "decode_key_event (S ''97;2049'') (S ''u'') = Inr (KeyEvent0\<lparr>key := S ''a'', mods := 2048\<rparr>)"
    by (simp add: S_simps decode_defs int_defs table_defs KeyEvent0_def)
  show "S ''foo'' \<in> set (butlast (shortcut_parts (S ''foo+a'')))"
    by (simp add: S_simps shortcut_parts_def endswith_def)
  show "map_of config_mod_map (py_upper (unicode_upper no_aliases) (S ''foo'')) = None"
    by (simp add: S_simps py_upper_def config_mod_map_def)
  show "matches no_aliases (KeyEvent0\<lparr>key := S ''a'', mods := 2048\<rparr>) (Str (S ''foo+a'')) default_types"
    by (simp add: S_simps matches_def default_types_def parse_defs Let_def no_aliases_def table_defs KeyEvent0_def)
qed

section \<open>The modifier value on the wire\<close>




end
